theory Spec2Isabelle
  imports Complex_Main "HOL-Library.Multiset"
begin

section \<open>Interval primitives and features\<close>

text \<open>
  JavaScript numbers that hold base coordinates are modelled as \<open>int\<close>; pixel coordinates
  are modelled as \<open>real\<close> (rounding of doubles is abstracted away).  Exceptions are values
  of type \<open>error\<close>; a function that can throw returns \<open>error + 'a\<close>.
\<close>

datatype error = Error | RangeError | TypeError | ParseError

definition bind_err :: "error + 'a \<Rightarrow> ('a \<Rightarrow> error + 'b) \<Rightarrow> error + 'b" where
  "bind_err r f = (case r of Inl e \<Rightarrow> Inl e | Inr v \<Rightarrow> f v)"

text \<open>
  Modelled from the spec: the class OpenInterval is imported by the sources but not part of
  them.  ``OpenInterval(start, end): half-open integer interval, start \<le> end.  getLength =
  end - start.  getOverlap(other) returns the intersection interval or none if
  max(start) \<ge> min(end)''.  The same class carries pixel spans, hence the type parameter.
\<close>

record 'a OpenInterval =
  start :: 'a
  endp :: 'a

definition getLength :: "('a::minus, 'b) OpenInterval_scheme \<Rightarrow> 'a" where
  "getLength i = endp i - start i"

definition getOverlap :: "('a::linorder) OpenInterval \<Rightarrow> 'a OpenInterval \<Rightarrow> 'a OpenInterval option" where
  "getOverlap i other =
     (let intersectionStart = max (start i) (start other);
          intersectionEnd = min (endp i) (endp other)
      in if intersectionStart < intersectionEnd
         then Some \<lparr>start = intersectionStart, endp = intersectionEnd\<rparr>
         else None)"

text \<open>
  Modelled from the spec: ``ChromosomeInterval(chr, start, end): genomic locus; overlap
  requires equal chr''.
\<close>

record ChromosomeInterval = "int OpenInterval" +
  chr :: string

definition ChromosomeInterval_getOverlap ::
  "ChromosomeInterval \<Rightarrow> ChromosomeInterval \<Rightarrow> ChromosomeInterval option" where
  "ChromosomeInterval_getOverlap a b =
     (if chr a \<noteq> chr b then None
      else (case getOverlap \<lparr>start = start a, endp = endp a\<rparr> \<lparr>start = start b, endp = endp b\<rparr> of
              None \<Rightarrow> None
            | Some ov \<Rightarrow> Some \<lparr>start = start ov, endp = endp ov, chr = chr a\<rparr>))"

text \<open>
  Modelled from the spec: ``Feature(name, locus): immutable value''.  JavaScript compares
  and keys objects by reference; the field \<open>ident\<close> is the object's identity, so that two
  records are equal exactly when they denote the same object, and two distinct objects may
  carry the same name and locus.
\<close>

record Feature =
  ident :: nat
  name :: string
  locus :: ChromosomeInterval

definition Feature_getLength :: "Feature \<Rightarrow> int" where
  "Feature_getLength f = getLength (locus f)"

text \<open>
  Modelled from the spec: ``FeatureSegment(feature, relativeStart, relativeEnd): sub-range
  of a Feature in feature-local coordinates; derives a genomic locus by offsetting the
  feature's own locus; supports overlap against a genomic locus or another segment of the
  same feature''.  With the bounds omitted the segment spans the whole feature.
\<close>

record FeatureSegment =
  feature :: Feature
  relativeStart :: int
  relativeEnd :: int

definition FeatureSegment_whole :: "Feature \<Rightarrow> FeatureSegment" where
  "FeatureSegment_whole f = \<lparr>feature = f, relativeStart = 0, relativeEnd = Feature_getLength f\<rparr>"

definition FeatureSegment_getLength :: "FeatureSegment \<Rightarrow> int" where
  "FeatureSegment_getLength s = relativeEnd s - relativeStart s"

definition FeatureSegment_getLocus :: "FeatureSegment \<Rightarrow> ChromosomeInterval" where
  "FeatureSegment_getLocus s =
     \<lparr>start = start (locus (feature s)) + relativeStart s,
      endp = start (locus (feature s)) + relativeEnd s,
      chr = chr (locus (feature s))\<rparr>"

definition getGenomeOverlap :: "FeatureSegment \<Rightarrow> ChromosomeInterval \<Rightarrow> FeatureSegment option" where
  "getGenomeOverlap s chrInterval =
     (case ChromosomeInterval_getOverlap (FeatureSegment_getLocus s) chrInterval of
        None \<Rightarrow> None
      | Some ov \<Rightarrow> Some \<lparr>feature = feature s,
                         relativeStart = start ov - start (locus (feature s)),
                         relativeEnd = endp ov - start (locus (feature s))\<rparr>)"

definition FeatureSegment_getOverlap :: "FeatureSegment \<Rightarrow> FeatureSegment \<Rightarrow> FeatureSegment option" where
  "FeatureSegment_getOverlap s other =
     (if feature s \<noteq> feature other then None
      else (case getOverlap \<lparr>start = relativeStart s, endp = relativeEnd s\<rparr>
                            \<lparr>start = relativeStart other, endp = relativeEnd other\<rparr> of
              None \<Rightarrow> None
            | Some ov \<Rightarrow> Some \<lparr>feature = feature s, relativeStart = start ov, relativeEnd = endp ov\<rparr>))"

section \<open>Library functions used by the sources\<close>

text \<open>\<open>Array.prototype.findIndex\<close>: the index of the first element satisfying the predicate, -1 if none.\<close>

fun findIndex_from :: "('a \<Rightarrow> bool) \<Rightarrow> 'a list \<Rightarrow> int \<Rightarrow> int" where
  "findIndex_from p [] i = -1"
| "findIndex_from p (x # xs) i = (if p x then i else findIndex_from p xs (i + 1))"

definition findIndex :: "('a \<Rightarrow> bool) \<Rightarrow> 'a list \<Rightarrow> int" where
  "findIndex p xs = findIndex_from p xs 0"

text \<open>\<open>Array.prototype.find\<close>: the first element satisfying the predicate, undefined if none.\<close>

fun find_first :: "('a \<Rightarrow> bool) \<Rightarrow> 'a list \<Rightarrow> 'a option" where
  "find_first p [] = None"
| "find_first p (x # xs) = (if p x then Some x else find_first p xs)"

text \<open>\<open>Array.prototype.slice(0, e)\<close>: a negative end counts from the end of the array.\<close>

definition slice0 :: "'a list \<Rightarrow> int \<Rightarrow> 'a list" where
  "slice0 xs e = (if e < 0 then take (length xs - nat (- e)) xs else take (nat e) xs)"

text \<open>
  lodash \<open>sortedLastIndex\<close>: the binary search of lodash's \<open>baseSortedIndex\<close> with
  \<open>retHighest = true\<close> on an array of numbers.
\<close>

function sortedLastIndex_loop :: "int list \<Rightarrow> int \<Rightarrow> nat \<Rightarrow> nat \<Rightarrow> nat" where
  "sortedLastIndex_loop array v low high =
     (if low < high then
        (let mid = (low + high) div 2 in
         if array ! mid \<le> v then sortedLastIndex_loop array v (mid + 1) high
         else sortedLastIndex_loop array v low mid)
      else high)"
  by pat_completeness auto
termination
  by (relation "measure (\<lambda>(array, v, low, high). high - low)") auto

declare sortedLastIndex_loop.simps [simp del]

definition sortedLastIndex :: "int list \<Rightarrow> int \<Rightarrow> nat" where
  "sortedLastIndex array v = sortedLastIndex_loop array v 0 (length array)"

text \<open>
  lodash \<open>groupBy\<close>: the own properties of the object it returns are the keys that occur,
  each holding the elements with that key in the order of the collection.
\<close>

definition groupBy :: "('a \<Rightarrow> 'k) \<Rightarrow> 'a list \<Rightarrow> 'k \<Rightarrow> 'a list option" where
  "groupBy key xs k = (if k \<in> key ` set xs then Some (filter (\<lambda>x. key x = k) xs) else None)"

text \<open>
  The object returned by \<open>groupBy\<close> is a plain object: reading a key that is not an own
  property gives the member of that name inherited from \<open>Object.prototype\<close> when there is
  one (a function, or for \<open>__proto__\<close> the prototype itself: truthy and not iterable), and
  \<open>undefined\<close> otherwise.
\<close>

definition objectPrototypeMembers :: "string list" where
  "objectPrototypeMembers =
     [''constructor'', ''__defineGetter__'', ''__defineSetter__'', ''hasOwnProperty'',
      ''__lookupGetter__'', ''__lookupSetter__'', ''isPrototypeOf'', ''propertyIsEnumerable'',
      ''toString'', ''valueOf'', ''__proto__'', ''toLocaleString'']"

datatype 'a property = Own 'a | Inherited | Undefined

definition object_get :: "(string \<rightharpoonup> 'a) \<Rightarrow> string \<Rightarrow> 'a property" where
  "object_get obj k =
     (case obj k of
        Some v \<Rightarrow> Own v
      | None \<Rightarrow> if k \<in> set objectPrototypeMembers then Inherited else Undefined)"

section \<open>NavigationContext\<close>

definition GAP_CHR :: string where
  "GAP_CHR = ''''"

record NavigationContext =
  ctxName :: string
  features :: "Feature list"
  sortedFeatureStarts :: "int list"
  startCoordinateForFeature :: "Feature \<rightharpoonup> int"
  featuresForChr :: "string \<rightharpoonup> Feature list"
  totalBases :: int

text \<open>
  \<open>makeGap\<close> allocates a new feature object, whose identity is the parameter \<open>oid\<close>; the
  name defaults to \<open>Gap\<close> in the sources.  On an integer length \<open>Math.round\<close> is the
  identity.
\<close>

definition makeGap :: "nat \<Rightarrow> int \<Rightarrow> string \<Rightarrow> Feature" where
  "makeGap oid len nm = \<lparr>ident = oid, name = nm, locus = \<lparr>start = 0, endp = len, chr = GAP_CHR\<rparr>\<rparr>"

definition isGapFeature :: "Feature \<Rightarrow> bool" where
  "isGapFeature f \<longleftrightarrow> chr (locus f) = GAP_CHR"

text \<open>The loop of the constructor; the thrown \<open>Error\<close> aborts the construction.\<close>

fun construct_loop :: "Feature list \<Rightarrow> NavigationContext \<Rightarrow> error + NavigationContext" where
  "construct_loop [] ctx = Inr ctx"
| "construct_loop (f # fs) ctx =
     (if startCoordinateForFeature ctx f \<noteq> None then Inl Error
      else construct_loop fs
             (ctx\<lparr>startCoordinateForFeature := (startCoordinateForFeature ctx)(f \<mapsto> totalBases ctx),
                  sortedFeatureStarts := sortedFeatureStarts ctx @ [totalBases ctx],
                  totalBases := totalBases ctx + Feature_getLength f\<rparr>))"

definition NavigationContext_new :: "string \<Rightarrow> Feature list \<Rightarrow> error + NavigationContext" where
  "NavigationContext_new nm fs =
     construct_loop fs
       \<lparr>ctxName = nm, features = fs, sortedFeatureStarts = [],
        startCoordinateForFeature = Map.empty,
        featuresForChr = groupBy (\<lambda>f. chr (locus f)) fs,
        totalBases = 0\<rparr>"

definition getTotalBases :: "NavigationContext \<Rightarrow> int" where
  "getTotalBases ctx = totalBases ctx"

definition getIsValidBase :: "NavigationContext \<Rightarrow> int \<Rightarrow> bool" where
  "getIsValidBase ctx base \<longleftrightarrow> 0 \<le> base \<and> base < totalBases ctx"

definition getFeatureStart :: "NavigationContext \<Rightarrow> Feature \<Rightarrow> error + int" where
  "getFeatureStart ctx f =
     (case startCoordinateForFeature ctx f of None \<Rightarrow> Inl RangeError | Some coordinate \<Rightarrow> Inr coordinate)"

text \<open>
  An index outside the feature array reads \<open>undefined\<close>, on which building the segment
  fails with a \<open>TypeError\<close>.
\<close>

definition convertBaseToFeatureCoordinate :: "NavigationContext \<Rightarrow> int \<Rightarrow> error + FeatureSegment" where
  "convertBaseToFeatureCoordinate ctx base =
     (if \<not> getIsValidBase ctx base then Inl RangeError
      else
        (let index = int (sortedLastIndex (sortedFeatureStarts ctx) base) - 1 in
         if index < 0 \<or> int (length (features ctx)) \<le> index then Inl TypeError
         else
           (let f = features ctx ! nat index;
                coordinate = base - sortedFeatureStarts ctx ! nat index
            in Inr \<lparr>feature = f, relativeStart = coordinate, relativeEnd = coordinate\<rparr>)))"

definition convertFeatureSegmentToContextCoordinates ::
  "NavigationContext \<Rightarrow> FeatureSegment \<Rightarrow> error + int OpenInterval" where
  "convertFeatureSegmentToContextCoordinates ctx segment =
     bind_err (getFeatureStart ctx (feature segment))
       (\<lambda>contextStart. Inr \<lparr>start = contextStart + relativeStart segment,
                             endp = contextStart + relativeEnd segment\<rparr>)"

fun convertGenome_loop ::
  "NavigationContext \<Rightarrow> ChromosomeInterval \<Rightarrow> Feature list \<Rightarrow> int OpenInterval list
     \<Rightarrow> error + int OpenInterval list" where
  "convertGenome_loop ctx chrInterval [] contextIntervals = Inr contextIntervals"
| "convertGenome_loop ctx chrInterval (f # fs) contextIntervals =
     (case getGenomeOverlap (FeatureSegment_whole f) chrInterval of
        None \<Rightarrow> convertGenome_loop ctx chrInterval fs contextIntervals
      | Some overlap \<Rightarrow>
          bind_err (convertFeatureSegmentToContextCoordinates ctx overlap)
            (\<lambda>c. convertGenome_loop ctx chrInterval fs (contextIntervals @ [c])))"

text \<open>
  \<open>this._featuresForChr[chrInterval.chr] || []\<close>: an own property is the list of the
  features of that chromosome, \<open>undefined\<close> gives the empty list, and an inherited member
  is kept, on which \<open>for ... of\<close> throws a \<open>TypeError\<close>.
\<close>

definition convertGenomeIntervalToBases ::
  "NavigationContext \<Rightarrow> ChromosomeInterval \<Rightarrow> error + int OpenInterval list" where
  "convertGenomeIntervalToBases ctx chrInterval =
     (case object_get (featuresForChr ctx) (chr chrInterval) of
        Own potentialOverlaps \<Rightarrow> convertGenome_loop ctx chrInterval potentialOverlaps []
      | Undefined \<Rightarrow> convertGenome_loop ctx chrInterval [] []
      | Inherited \<Rightarrow> Inl TypeError)"

definition toGaplessCoordinate :: "NavigationContext \<Rightarrow> int \<Rightarrow> error + int" where
  "toGaplessCoordinate ctx base =
     bind_err (convertBaseToFeatureCoordinate ctx base)
       (\<lambda>featureCoordinate.
          let featureIndex = findIndex (\<lambda>f. f = feature featureCoordinate) (features ctx);
              gapFeaturesBefore = filter isGapFeature (slice0 (features ctx) featureIndex);
              gapBasesBefore = sum_list (map Feature_getLength gapFeaturesBefore);
              gapBasesBefore' =
                (if isGapFeature (feature featureCoordinate)
                 then gapBasesBefore + relativeStart featureCoordinate
                 else gapBasesBefore)
          in Inr (base - gapBasesBefore'))"

text \<open>The loop of \<open>getFeaturesInInterval\<close>; \<open>break\<close> returns the results collected so far.\<close>

fun getFeaturesInInterval_loop ::
  "NavigationContext \<Rightarrow> int OpenInterval \<Rightarrow> bool \<Rightarrow> Feature list \<Rightarrow> FeatureSegment list
     \<Rightarrow> error + FeatureSegment list" where
  "getFeaturesInInterval_loop ctx queryInterval includeGaps [] results = Inr results"
| "getFeaturesInInterval_loop ctx queryInterval includeGaps (f # fs) results =
     (if \<not> includeGaps \<and> isGapFeature f
      then getFeaturesInInterval_loop ctx queryInterval includeGaps fs results
      else
        bind_err (getFeatureStart ctx f)
          (\<lambda>s. let e = s + Feature_getLength f in
             (case getOverlap \<lparr>start = s, endp = e\<rparr> queryInterval of
                Some overlap \<Rightarrow>
                  getFeaturesInInterval_loop ctx queryInterval includeGaps fs
                    (results @ [\<lparr>feature = f, relativeStart = start overlap - s,
                                 relativeEnd = endp overlap - s\<rparr>])
              | None \<Rightarrow>
                  if length results > 0 then Inr results
                  else getFeaturesInInterval_loop ctx queryInterval includeGaps fs results)))"

definition getFeaturesInInterval ::
  "NavigationContext \<Rightarrow> int \<Rightarrow> int \<Rightarrow> bool \<Rightarrow> error + FeatureSegment list" where
  "getFeaturesInInterval ctx queryStart queryEnd includeGaps =
     getFeaturesInInterval_loop ctx \<lparr>start = queryStart, endp = queryEnd\<rparr> includeGaps (features ctx) []"

section \<open>Auxiliary notions used in the statements\<close>

text \<open>The context coordinates at which the features of a list start, counted from \<open>t\<close>.\<close>

fun starts_from :: "int \<Rightarrow> Feature list \<Rightarrow> int list" where
  "starts_from t [] = []"
| "starts_from t (f # fs) = t # starts_from (t + Feature_getLength f) fs"

text \<open>
  A chromosome name on which the lookup in \<open>_featuresForChr\<close> gives a list: a chromosome of
  the context, or a name that \<open>Object.prototype\<close> does not have.
\<close>

definition lookupSafe :: "NavigationContext \<Rightarrow> string \<Rightarrow> bool" where
  "lookupSafe ctx c \<longleftrightarrow> object_get (featuresForChr ctx) c \<noteq> Inherited"

text \<open>The context of the documentation of \<open>toGaplessCoordinate\<close>: 10bp feature, 10bp gap, 10bp feature.\<close>

definition gaplessExample :: "Feature list" where
  "gaplessExample =
     [\<lparr>ident = 0, name = ''f1'', locus = \<lparr>start = 0, endp = 10, chr = ''chr1''\<rparr>\<rparr>,
      makeGap 1 10 ''Gap'',
      \<lparr>ident = 2, name = ''f2'', locus = \<lparr>start = 50, endp = 60, chr = ''chr2''\<rparr>\<rparr>]"

text \<open>Two distinct gap objects that carry the default name.\<close>

definition sameNameExample :: "Feature list" where
  "sameNameExample = [makeGap 0 10 ''Gap'', makeGap 1 5 ''Gap'']"

section \<open>IntervalArranger\<close>

text \<open>
  Modelled from the spec: the drawing model is imported by the sources but not part of
  them.  ``baseToX(contextCoordinate) \<rightarrow> pixelX; baseSpanToXSpan(OpenInterval) \<rightarrow>
  OpenInterval in pixel space; treated as an opaque, deterministic transform''.
\<close>

record LinearDrawingModel =
  baseToX :: "int \<Rightarrow> real"
  baseSpanToXSpan :: "int OpenInterval \<Rightarrow> real OpenInterval"

record 'b IntervalArranger =
  drawModel :: LinearDrawingModel
  getPadding :: "(int, 'b) OpenInterval_scheme \<Rightarrow> real"
  numRows :: int

text \<open>An entry of \<open>maxXsForRows\<close>: \<open>-Infinity\<close> or a pixel coordinate.\<close>

datatype maxX = NegInfinity | X real

fun maxX_less :: "maxX \<Rightarrow> real \<Rightarrow> bool" where
  "maxX_less NegInfinity startX = True"
| "maxX_less (X m) startX = (m < startX)"

text \<open>The comparator of \<open>_sortIntervals\<close>.\<close>

definition compareIntervals :: "(int, 'b) OpenInterval_scheme \<Rightarrow> (int, 'b) OpenInterval_scheme \<Rightarrow> int" where
  "compareIntervals interval1 interval2 =
     (let startComparison = start interval1 - start interval2 in
      if startComparison = 0 then getLength interval2 - getLength interval1
      else startComparison)"

text \<open>
  \<open>Array.prototype.sort\<close> with a comparator: a stable sort (as ECMAScript requires),
  here by insertion.  It sorts the array in place and returns that same array.
\<close>

fun insert_sorted :: "('a \<Rightarrow> 'a \<Rightarrow> int) \<Rightarrow> 'a \<Rightarrow> 'a list \<Rightarrow> 'a list" where
  "insert_sorted cmp x [] = [x]"
| "insert_sorted cmp x (y # ys) =
     (if cmp x y \<le> 0 then x # y # ys else y # insert_sorted cmp x ys)"

definition array_sort :: "('a \<Rightarrow> 'a \<Rightarrow> int) \<Rightarrow> 'a list \<Rightarrow> 'a list" where
  "array_sort cmp xs = foldr (insert_sorted cmp) xs []"

definition sortIntervals :: "(int, 'b) OpenInterval_scheme list \<Rightarrow> (int, 'b) OpenInterval_scheme list" where
  "sortIntervals intervals = array_sort compareIntervals intervals"

text \<open>One iteration of the loop of \<open>arrange\<close>: the row found, and the updated \<open>maxXsForRows\<close>.\<close>

definition arrange_step ::
  "'b IntervalArranger \<Rightarrow> (int, 'b) OpenInterval_scheme \<Rightarrow> maxX list \<Rightarrow> int \<times> maxX list" where
  "arrange_step a interval maxXsForRows =
     (let horizontalPadding = getPadding a interval;
          startX = baseToX (drawModel a) (start interval) - horizontalPadding;
          row = findIndex (\<lambda>m. maxX_less m startX) maxXsForRows
      in if row \<noteq> -1
         then (row, maxXsForRows[nat row := X (baseToX (drawModel a) (endp interval) + horizontalPadding)])
         else (row, maxXsForRows))"

fun arrange_loop ::
  "'b IntervalArranger \<Rightarrow> (int, 'b) OpenInterval_scheme list \<Rightarrow> maxX list \<Rightarrow> int list \<Rightarrow> int list" where
  "arrange_loop a [] maxXsForRows rowIndices = rowIndices"
| "arrange_loop a (interval # rest) maxXsForRows rowIndices =
     (case arrange_step a interval maxXsForRows of
        (row, maxXsForRows') \<Rightarrow> arrange_loop a rest maxXsForRows' (rowIndices @ [row]))"

text \<open>
  A call of \<open>_sortIntervals\<close>: \<open>Array.prototype.sort\<close> sorts the array it is called on in
  place and returns that same array.  The first component is the returned array, the second
  the content of the argument after the call.
\<close>

definition sortIntervals_call ::
  "(int, 'b) OpenInterval_scheme list
     \<Rightarrow> (int, 'b) OpenInterval_scheme list \<times> (int, 'b) OpenInterval_scheme list" where
  "sortIntervals_call intervals = (sortIntervals intervals, sortIntervals intervals)"

text \<open>
  \<open>arrange\<close> returns the array of row indices; the second component is the content of the
  caller's \<open>intervals\<close> array after the call.
\<close>

definition arrange ::
  "'b IntervalArranger \<Rightarrow> (int, 'b) OpenInterval_scheme list
     \<Rightarrow> int list \<times> (int, 'b) OpenInterval_scheme list" where
  "arrange a intervals =
     (if numRows a \<le> 0 then (replicate (length intervals) (-1), intervals)
      else
        (let maxXsForRows = replicate (nat (numRows a)) NegInfinity in
         case sortIntervals_call intervals of
           (sortedIntervals, intervals') \<Rightarrow>
             (arrange_loop a sortedIntervals maxXsForRows [], intervals')))"

text \<open>The state of \<open>maxXsForRows\<close> after the loop has processed the first \<open>k\<close> intervals of a list.\<close>

definition occupied :: "'b IntervalArranger \<Rightarrow> (int, 'b) OpenInterval_scheme list \<Rightarrow> nat \<Rightarrow> maxX list" where
  "occupied a ys k =
     foldl (\<lambda>m interval. snd (arrange_step a interval m)) (replicate (nat (numRows a)) NegInfinity) (take k ys)"

text \<open>
  First fit, in the words of the specification: \<open>r\<close> is the lowest-index row whose occupied
  coordinate is strictly less than the padded pixel start \<open>s\<close>, or -1 if no row qualifies.
\<close>

definition first_fit_row :: "maxX list \<Rightarrow> real \<Rightarrow> int \<Rightarrow> bool" where
  "first_fit_row occ s r \<longleftrightarrow>
     (if \<exists>j<length occ. maxX_less (occ ! j) s
      then 0 \<le> r \<and> nat r < length occ \<and> maxX_less (occ ! nat r) s
           \<and> (\<forall>j<nat r. \<not> maxX_less (occ ! j) s)
      else r = -1)"

text \<open>The order of processing: ascending start, ties broken by longer interval first.\<close>

definition processed_before :: "(int, 'b) OpenInterval_scheme \<Rightarrow> (int, 'b) OpenInterval_scheme \<Rightarrow> bool" where
  "processed_before x y \<longleftrightarrow> start x < start y \<or> (start x = start y \<and> getLength y \<le> getLength x)"

text \<open>The arranger of the examples: identity drawing model, two rows, no padding.\<close>

definition exampleArranger :: "unit IntervalArranger" where
  "exampleArranger =
     \<lparr>drawModel = \<lparr>baseToX = real_of_int,
                   baseSpanToXSpan = (\<lambda>i. \<lparr>start = real_of_int (start i), endp = real_of_int (endp i)\<rparr>)\<rparr>,
      getPadding = (\<lambda>interval. 0),
      numRows = 2\<rparr>"

definition ivA :: "int OpenInterval" where "ivA = \<lparr>start = 0, endp = 10\<rparr>"
definition ivB :: "int OpenInterval" where "ivB = \<lparr>start = 5, endp = 15\<rparr>"
definition ivC :: "int OpenInterval" where "ivC = \<lparr>start = 12, endp = 20\<rparr>"
definition ivD :: "int OpenInterval" where "ivD = \<lparr>start = 14, endp = 25\<rparr>"

text \<open>
  The positions at which the intervals were passed, in the order in which the loop
  processes them: the same stable sort, applied to the positions.
\<close>

definition sortPositions :: "(int, 'b) OpenInterval_scheme list \<Rightarrow> nat list" where
  "sortPositions xs = array_sort (\<lambda>i j. compareIntervals (xs ! i) (xs ! j)) [0..<length xs]"

section \<open>FeaturePlacer\<close>

text \<open>
  Modelled from the spec: the view region is imported by the sources but not part of them;
  it gives the navigation context and ``a view window (a context-coordinate interval)''.
\<close>

record DisplayedRegionModel =
  navContext :: NavigationContext
  contextCoordinates :: "int OpenInterval"

text \<open>Modelled from the spec: ``each interaction carries two genomic loci''.\<close>

record GenomeInteraction =
  locus1 :: ChromosomeInterval
  locus2 :: ChromosomeInterval

record PlacedInteraction =
  interaction :: GenomeInteraction
  xSpan1 :: "real OpenInterval"
  xSpan2 :: "real OpenInterval"

definition PlacedInteraction_new ::
  "GenomeInteraction \<Rightarrow> real OpenInterval \<Rightarrow> real OpenInterval \<Rightarrow> PlacedInteraction" where
  "PlacedInteraction_new i s1 s2 =
     (if start s1 \<le> start s2 then \<lparr>interaction = i, xSpan1 = s1, xSpan2 = s2\<rparr>
      else \<lparr>interaction = i, xSpan1 = s2, xSpan2 = s1\<rparr>)"

text \<open>
  The two nested loops of \<open>placeInteractions\<close> over the clamped locations of one
  interaction; a location that did not survive the clamping is \<open>None\<close>.
\<close>

definition placeInteraction_pairs ::
  "LinearDrawingModel \<Rightarrow> GenomeInteraction \<Rightarrow> int OpenInterval option list
     \<Rightarrow> int OpenInterval option list \<Rightarrow> PlacedInteraction list" where
  "placeInteraction_pairs dm i contextLocations1 contextLocations2 =
     concat (map (\<lambda>location1.
       concat (map (\<lambda>location2.
         (case (location1, location2) of
            (Some l1, Some l2) \<Rightarrow>
              [PlacedInteraction_new i (baseSpanToXSpan dm l1) (baseSpanToXSpan dm l2)]
          | _ \<Rightarrow> [])) contextLocations2)) contextLocations1)"

fun placeInteractions_loop ::
  "LinearDrawingModel \<Rightarrow> int OpenInterval \<Rightarrow> NavigationContext \<Rightarrow> GenomeInteraction list
     \<Rightarrow> PlacedInteraction list \<Rightarrow> error + PlacedInteraction list" where
  "placeInteractions_loop dm viewRegionBounds ctx [] mappedInteractions = Inr mappedInteractions"
| "placeInteractions_loop dm viewRegionBounds ctx (i # rest) mappedInteractions =
     bind_err (convertGenomeIntervalToBases ctx (locus1 i)) (\<lambda>c1.
     bind_err (convertGenomeIntervalToBases ctx (locus2 i)) (\<lambda>c2.
       let contextLocations1 = map (\<lambda>location. getOverlap location viewRegionBounds) c1;
           contextLocations2 = map (\<lambda>location. getOverlap location viewRegionBounds) c2
       in placeInteractions_loop dm viewRegionBounds ctx rest
            (mappedInteractions @ placeInteraction_pairs dm i contextLocations1 contextLocations2)))"

text \<open>
  The constructor of the drawing model is not part of the sources; it is the parameter
  \<open>newDrawModel\<close>.
\<close>

definition placeInteractions ::
  "(DisplayedRegionModel \<Rightarrow> real \<Rightarrow> LinearDrawingModel) \<Rightarrow> GenomeInteraction list
     \<Rightarrow> DisplayedRegionModel \<Rightarrow> real \<Rightarrow> error + PlacedInteraction list" where
  "placeInteractions newDrawModel interactions viewRegion width =
     (let dm = newDrawModel viewRegion width;
          viewRegionBounds = contextCoordinates viewRegion;
          ctx = navContext viewRegion
      in placeInteractions_loop dm viewRegionBounds ctx interactions [])"

text \<open>
  A JavaScript number computed by \<open>placeFeatureSegments\<close>: a finite number, or a value
  that is not a finite number (\<open>NaN\<close>, \<open>Infinity\<close>, \<open>-Infinity\<close>).  A division by zero
  does not throw, it gives a value that is not finite; a product or sum with such an
  operand is not finite either.
\<close>

datatype jsnum = Finite real | NotFinite

fun js_div :: "real \<Rightarrow> real \<Rightarrow> jsnum" where
  "js_div a b = (if b = 0 then NotFinite else Finite (a / b))"

fun js_mul :: "real \<Rightarrow> jsnum \<Rightarrow> jsnum" where
  "js_mul a (Finite b) = Finite (a * b)"
| "js_mul a NotFinite = NotFinite"

fun js_add :: "jsnum \<Rightarrow> jsnum \<Rightarrow> jsnum" where
  "js_add (Finite a) (Finite b) = Finite (a + b)"
| "js_add _ _ = NotFinite"

record PlacedFeature =
  placedFeature :: Feature
  visiblePart :: FeatureSegment
  contextLocation :: "int OpenInterval"
  featureXSpan :: "real OpenInterval"

record PlacedSegment =
  segment :: FeatureSegment
  xSpan :: "jsnum OpenInterval"

fun placeFeatureSegments_loop ::
  "PlacedFeature \<Rightarrow> jsnum \<Rightarrow> FeatureSegment list \<Rightarrow> PlacedSegment list \<Rightarrow> PlacedSegment list" where
  "placeFeatureSegments_loop pf pixelsPerBase [] placements = placements"
| "placeFeatureSegments_loop pf pixelsPerBase (s # segments) placements =
     (case FeatureSegment_getOverlap s (visiblePart pf) of
        None \<Rightarrow> placeFeatureSegments_loop pf pixelsPerBase segments placements
      | Some visibleSegment \<Rightarrow>
          (let basesFromVisiblePart = relativeStart visibleSegment - relativeStart (visiblePart pf);
               distanceFromXSpan = js_mul (real_of_int basesFromVisiblePart) pixelsPerBase;
               xSpanStart = js_add (Finite (start (featureXSpan pf))) distanceFromXSpan;
               xSpanLength = js_mul (real_of_int (FeatureSegment_getLength visibleSegment)) pixelsPerBase
           in placeFeatureSegments_loop pf pixelsPerBase segments
                (placements @ [\<lparr>segment = visibleSegment,
                                 xSpan = \<lparr>start = xSpanStart, endp = js_add xSpanStart xSpanLength\<rparr>\<rparr>])))"

definition pixelsPerBase :: "PlacedFeature \<Rightarrow> jsnum" where
  "pixelsPerBase pf = js_div (getLength (featureXSpan pf)) (real_of_int (getLength (contextLocation pf)))"

definition placeFeatureSegments :: "PlacedFeature \<Rightarrow> FeatureSegment list \<Rightarrow> PlacedSegment list" where
  "placeFeatureSegments pf segments = placeFeatureSegments_loop pf (pixelsPerBase pf) segments []"

text \<open>
  The surviving clipped context intervals of a locus: the context intervals of the locus
  that overlap the view region, clipped to it.
\<close>

definition survivors :: "DisplayedRegionModel \<Rightarrow> ChromosomeInterval \<Rightarrow> int OpenInterval list" where
  "survivors viewRegion l =
     (case convertGenomeIntervalToBases (navContext viewRegion) l of
        Inl e \<Rightarrow> []
      | Inr cs \<Rightarrow> List.map_filter (\<lambda>c. getOverlap c (contextCoordinates viewRegion)) cs)"

text \<open>The placements of one interaction: one for every pair of surviving clipped intervals of its two loci.\<close>

definition placedPairs ::
  "LinearDrawingModel \<Rightarrow> DisplayedRegionModel \<Rightarrow> GenomeInteraction \<Rightarrow> PlacedInteraction list" where
  "placedPairs dm viewRegion i =
     concat (map (\<lambda>a. map (\<lambda>b. PlacedInteraction_new i (baseSpanToXSpan dm a) (baseSpanToXSpan dm b))
                         (survivors viewRegion (locus2 i))) (survivors viewRegion (locus1 i)))"

text \<open>The placement that the loop of \<open>placeFeatureSegments\<close> pushes for a visible segment.\<close>

definition placeSegment :: "PlacedFeature \<Rightarrow> jsnum \<Rightarrow> FeatureSegment \<Rightarrow> PlacedSegment" where
  "placeSegment pf ppb visibleSegment =
     \<lparr>segment = visibleSegment,
      xSpan = \<lparr>start = js_add (Finite (start (featureXSpan pf)))
                        (js_mul (real_of_int (relativeStart visibleSegment - relativeStart (visiblePart pf))) ppb),
               endp = js_add (js_add (Finite (start (featureXSpan pf)))
                        (js_mul (real_of_int (relativeStart visibleSegment - relativeStart (visiblePart pf))) ppb))
                        (js_mul (real_of_int (FeatureSegment_getLength visibleSegment)) ppb)\<rparr>\<rparr>"

text \<open>Examples for the placer: an interaction between chr2 and chr1, an identity drawing model, a placed feature.\<close>

definition exampleInteraction :: GenomeInteraction where
  "exampleInteraction =
     \<lparr>locus1 = \<lparr>start = 52, endp = 58, chr = ''chr2''\<rparr>,
      locus2 = \<lparr>start = 2, endp = 8, chr = ''chr1''\<rparr>\<rparr>"

definition inheritedInteraction :: GenomeInteraction where
  "inheritedInteraction =
     \<lparr>locus1 = \<lparr>start = 0, endp = 10, chr = ''constructor''\<rparr>,
      locus2 = \<lparr>start = 2, endp = 8, chr = ''chr1''\<rparr>\<rparr>"

definition exampleDrawModel :: "DisplayedRegionModel \<Rightarrow> real \<Rightarrow> LinearDrawingModel" where
  "exampleDrawModel viewRegion width =
     \<lparr>baseToX = real_of_int,
      baseSpanToXSpan = (\<lambda>i. \<lparr>start = real_of_int (start i), endp = real_of_int (endp i)\<rparr>)\<rparr>"

definition exampleGene :: Feature where
  "exampleGene = \<lparr>ident = 0, name = ''gene'', locus = \<lparr>start = 1000, endp = 1100, chr = ''chr1''\<rparr>\<rparr>"

definition examplePlaced :: "PlacedFeature" where
  "examplePlaced =
     \<lparr>placedFeature = exampleGene,
      visiblePart = \<lparr>feature = exampleGene, relativeStart = 20, relativeEnd = 60\<rparr>,
      contextLocation = \<lparr>start = 120, endp = 160\<rparr>,
      featureXSpan = \<lparr>start = 0, endp = 80\<rparr>\<rparr>"

definition exampleSegments :: "FeatureSegment list" where
  "exampleSegments =
     [\<lparr>feature = exampleGene, relativeStart = 30, relativeEnd = 50\<rparr>,
      \<lparr>feature = exampleGene, relativeStart = 0, relativeEnd = 10\<rparr>,
      \<lparr>feature = exampleGene, relativeStart = 50, relativeEnd = 90\<rparr>]"

section \<open>Segments overlapping a query\<close>

text \<open>
  The segments that \<open>getFeaturesInInterval\<close> is specified to return for a list of features
  whose first one starts at context coordinate \<open>t\<close>: one segment per feature (gaps being
  skipped when \<open>includeGaps\<close> is false) whose span overlaps the query, in feature order,
  clipped to the query.
\<close>

fun overlappingSegments :: "int OpenInterval \<Rightarrow> bool \<Rightarrow> int \<Rightarrow> Feature list \<Rightarrow> FeatureSegment list" where
  "overlappingSegments q includeGaps t [] = []"
| "overlappingSegments q includeGaps t (f # fs) =
     (if \<not> includeGaps \<and> isGapFeature f then []
      else (case getOverlap \<lparr>start = t, endp = t + Feature_getLength f\<rparr> q of
              None \<Rightarrow> []
            | Some ov \<Rightarrow> [\<lparr>feature = f, relativeStart = start ov - t, relativeEnd = endp ov - t\<rparr>]))
     @ overlappingSegments q includeGaps (t + Feature_getLength f) fs"

text \<open>A context with a gap of length zero between two features of 10 bases.\<close>

definition zeroGapExample :: "Feature list" where
  "zeroGapExample =
     [\<lparr>ident = 0, name = ''f1'', locus = \<lparr>start = 0, endp = 10, chr = ''chr1''\<rparr>\<rparr>,
      makeGap 1 0 ''Gap'',
      \<lparr>ident = 2, name = ''f2'', locus = \<lparr>start = 50, endp = 60, chr = ''chr2''\<rparr>\<rparr>]"

section \<open>Parsing of locations\<close>

text \<open>
  The regular expression \<open>/([\w:]+):(\d+)-(\d+)/\<close> of \<open>parse\<close>: a sequence of items, each a
  literal character or one or more characters of a class.  \<open>match_here\<close> matches the items
  against a prefix of the string, greedily with backtracking; \<open>str.match\<close> without anchors
  searches for a match starting at any position, and the sources use its result only as a
  truth value.
\<close>

datatype item = Lit char | Many1 "char \<Rightarrow> bool"

definition isDigit :: "char \<Rightarrow> bool" where
  "isDigit c \<longleftrightarrow> 48 \<le> (of_char c :: nat) \<and> (of_char c :: nat) \<le> 57"

definition isWord :: "char \<Rightarrow> bool" where
  "isWord c \<longleftrightarrow> isDigit c \<or> (65 \<le> (of_char c :: nat) \<and> (of_char c :: nat) \<le> 90)
      \<or> (97 \<le> (of_char c :: nat) \<and> (of_char c :: nat) \<le> 122) \<or> c = CHR ''_''"

definition isWordOrColon :: "char \<Rightarrow> bool" where
  "isWordOrColon c \<longleftrightarrow> isWord c \<or> c = CHR '':''"

fun match_here :: "item list \<Rightarrow> string \<Rightarrow> bool" where
  "match_here [] s = True"
| "match_here (Lit c # r) [] = False"
| "match_here (Lit c # r) (x # xs) = (x = c \<and> match_here r xs)"
| "match_here (Many1 p # r) [] = False"
| "match_here (Many1 p # r) (x # xs) = (p x \<and> (match_here (Many1 p # r) xs \<or> match_here r xs))"

fun regex_search :: "item list \<Rightarrow> string \<Rightarrow> bool" where
  "regex_search r [] = match_here r []"
| "regex_search r (x # xs) = (match_here r (x # xs) \<or> regex_search r xs)"

definition intervalRegex :: "item list" where
  "intervalRegex = [Many1 isWordOrColon, Lit CHR '':'', Many1 isDigit, Lit CHR ''-'', Many1 isDigit]"

text \<open>
  Modelled from the spec: \<open>ChromosomeInterval.parse\<close> is called by the sources but not part
  of them.  ``parse(text) reads "chr:start-end" (0-indexed, end-exclusive), fails on
  malformed input''; the grammar is ``chrName:startBase-endBase (non-negative integers,
  start < end)''.  The text is split at its last colon and the rest at its hyphen.
\<close>

definition parseInt :: "string \<Rightarrow> int" where
  "parseInt ds = foldl (\<lambda>n c. 10 * n + (int (of_char c) - 48)) 0 ds"

definition ChromosomeInterval_parse :: "string \<Rightarrow> error + ChromosomeInterval" where
  "ChromosomeInterval_parse str =
     (let r = rev str;
          range = rev (takeWhile (\<lambda>c. c \<noteq> CHR '':'') r);
          chrName = rev (drop 1 (dropWhile (\<lambda>c. c \<noteq> CHR '':'') r));
          startBase = takeWhile (\<lambda>c. c \<noteq> CHR ''-'') range;
          endBase = drop 1 (dropWhile (\<lambda>c. c \<noteq> CHR ''-'') range)
      in if CHR '':'' \<in> set str \<and> CHR ''-'' \<in> set range \<and> chrName \<noteq> []
            \<and> startBase \<noteq> [] \<and> endBase \<noteq> [] \<and> list_all isDigit startBase \<and> list_all isDigit endBase
            \<and> parseInt startBase < parseInt endBase
         then Inr \<lparr>start = parseInt startBase, endp = parseInt endBase, chr = chrName\<rparr>
         else Inl ParseError)"

definition parse :: "NavigationContext \<Rightarrow> string \<Rightarrow> error + int OpenInterval" where
  "parse ctx str =
     (if regex_search intervalRegex str then
        bind_err (ChromosomeInterval_parse str) (\<lambda>locus.
        bind_err (convertGenomeIntervalToBases ctx locus) (\<lambda>contextIntervals.
          (case contextIntervals of
             [] \<Rightarrow> Inl RangeError
           | contextCoords # _ \<Rightarrow> Inr contextCoords)))
      else
        (case find_first (\<lambda>f. name f = str) (features ctx) of
           None \<Rightarrow> Inl RangeError
         | Some f \<Rightarrow> convertFeatureSegmentToContextCoordinates ctx (FeatureSegment_whole f)))"

text \<open>A string of the form \<open>chr:start-end\<close>, with start < end.\<close>

definition locusText :: "string \<Rightarrow> string \<Rightarrow> string \<Rightarrow> string" where
  "locusText c ds1 ds2 = c @ '':'' @ ds1 @ ''-'' @ ds2"

definition isLocusText :: "string \<Rightarrow> bool" where
  "isLocusText s \<longleftrightarrow>
     (\<exists>c ds1 ds2. s = locusText c ds1 ds2 \<and> c \<noteq> [] \<and> list_all isWordOrColon c
        \<and> ds1 \<noteq> [] \<and> list_all isDigit ds1 \<and> ds2 \<noteq> [] \<and> list_all isDigit ds2
        \<and> parseInt ds1 < parseInt ds2)"

text \<open>
  A string that contains a locus somewhere: word characters or colons, a colon, digits, a
  hyphen, digits, with anything before and after.
\<close>

definition containsLocus :: "string \<Rightarrow> bool" where
  "containsLocus s \<longleftrightarrow>
     (\<exists>pre c ds1 ds2 post. s = pre @ c @ '':'' @ ds1 @ ''-'' @ ds2 @ post
        \<and> c \<noteq> [] \<and> list_all isWordOrColon c
        \<and> ds1 \<noteq> [] \<and> list_all isDigit ds1 \<and> ds2 \<noteq> [] \<and> list_all isDigit ds2)"

text \<open>A context whose second feature has a name that contains a locus.\<close>

definition namedExample :: "Feature list" where
  "namedExample =
     [\<lparr>ident = 0, name = ''chr1'', locus = \<lparr>start = 0, endp = 1000, chr = ''chr1''\<rparr>\<rparr>,
      \<lparr>ident = 1, name = ''chr1:100-200_up'', locus = \<lparr>start = 0, endp = 50, chr = ''chr7''\<rparr>\<rparr>]"

section \<open>The constructor\<close>

lemma length_starts_from [simp]: "length (starts_from t fs) = length fs"
  by (induction fs arbitrary: t) auto

lemma construct_loop_present:
  "f \<in> set fs \<Longrightarrow> startCoordinateForFeature ctx f \<noteq> None \<Longrightarrow> construct_loop fs ctx = Inl Error"
proof (induction fs arbitrary: ctx)
  case Nil
  then show ?case by simp
next
  case (Cons g fs)
  show ?case
  proof (cases "startCoordinateForFeature ctx g = None")
    case False
    then show ?thesis by simp
  next
    case True
    with Cons.prems have "f \<in> set fs" by auto
    with Cons.IH Cons.prems(2) True show ?thesis by simp
  qed
qed

lemma construct_loop_dup:
  "\<not> distinct fs \<Longrightarrow> construct_loop fs ctx = Inl Error"
proof (induction fs arbitrary: ctx)
  case Nil
  then show ?case by simp
next
  case (Cons f fs)
  show ?case
  proof (cases "f \<in> set fs")
    case True
    then show ?thesis by (simp add: construct_loop_present)
  next
    case False
    with Cons.prems have "\<not> distinct fs" by simp
    with Cons.IH show ?thesis by simp
  qed
qed

lemma construct_loop_ok:
  "distinct fs \<Longrightarrow> \<forall>f\<in>set fs. startCoordinateForFeature ctx f = None \<Longrightarrow>
   \<exists>ctx'. construct_loop fs ctx = Inr ctx'
     \<and> features ctx' = features ctx \<and> featuresForChr ctx' = featuresForChr ctx
     \<and> ctxName ctx' = ctxName ctx
     \<and> sortedFeatureStarts ctx' = sortedFeatureStarts ctx @ starts_from (totalBases ctx) fs
     \<and> totalBases ctx' = totalBases ctx + sum_list (map Feature_getLength fs)
     \<and> (\<forall>x. startCoordinateForFeature ctx' x =
            (case map_of (zip fs (starts_from (totalBases ctx) fs)) x of
               Some v \<Rightarrow> Some v | None \<Rightarrow> startCoordinateForFeature ctx x))"
proof (induction fs arbitrary: ctx)
  case Nil
  show ?case by simp
next
  case (Cons f fs)
  let ?c = "ctx\<lparr>startCoordinateForFeature := (startCoordinateForFeature ctx)(f \<mapsto> totalBases ctx),
                  sortedFeatureStarts := sortedFeatureStarts ctx @ [totalBases ctx],
                  totalBases := totalBases ctx + Feature_getLength f\<rparr>"
  have d: "distinct fs" and nf: "f \<notin> set fs" using Cons.prems by auto
  have "\<forall>g\<in>set fs. startCoordinateForFeature ?c g = None"
    using Cons.prems by auto
  from Cons.IH[OF d this] obtain ctx' where
    c: "construct_loop fs ?c = Inr ctx'"
    "features ctx' = features ctx" "featuresForChr ctx' = featuresForChr ctx"
    "ctxName ctx' = ctxName ctx"
    "sortedFeatureStarts ctx' = sortedFeatureStarts ?c @ starts_from (totalBases ?c) fs"
    "totalBases ctx' = totalBases ?c + sum_list (map Feature_getLength fs)"
    "\<forall>x. startCoordinateForFeature ctx' x =
            (case map_of (zip fs (starts_from (totalBases ?c) fs)) x of
               Some v \<Rightarrow> Some v | None \<Rightarrow> startCoordinateForFeature ?c x)"
    by auto
  have n: "map_of (zip fs (starts_from (totalBases ctx + Feature_getLength f) fs)) f = None"
    using nf by simp
  have "construct_loop (f # fs) ctx = Inr ctx'"
    using c(1) Cons.prems by simp
  moreover have "\<forall>x. startCoordinateForFeature ctx' x =
            (case map_of (zip (f # fs) (starts_from (totalBases ctx) (f # fs))) x of
               Some v \<Rightarrow> Some v | None \<Rightarrow> startCoordinateForFeature ctx x)"
    using c(7) n by (auto split: option.splits)
  ultimately show ?case using c(2-6) by simp
qed

section \<open>Binary search and prefix sums\<close>

lemma sortedLastIndex_loop_bounds:
  "low \<le> high \<Longrightarrow> high \<le> length xs \<Longrightarrow> sorted xs \<Longrightarrow>
   \<forall>i<low. xs ! i \<le> v \<Longrightarrow> \<forall>i. high \<le> i \<and> i < length xs \<longrightarrow> v < xs ! i \<Longrightarrow>
   low \<le> sortedLastIndex_loop xs v low high \<and> sortedLastIndex_loop xs v low high \<le> high
   \<and> (\<forall>i<sortedLastIndex_loop xs v low high. xs ! i \<le> v)
   \<and> (\<forall>i. sortedLastIndex_loop xs v low high \<le> i \<and> i < length xs \<longrightarrow> v < xs ! i)"
proof (induction xs v low high rule: sortedLastIndex_loop.induct)
  case (1 array v low high)
  show ?case
  proof (cases "low < high")
    case False
    with "1.prems" show ?thesis by (simp add: sortedLastIndex_loop.simps)
  next
    case True
    define mid where "mid = (low + high) div 2"
    have m: "low \<le> mid" "mid < high" using True by (auto simp: mid_def)
    show ?thesis
    proof (cases "array ! mid \<le> v")
      case le: True
      have a: "\<forall>i<mid + 1. array ! i \<le> v"
      proof (intro allI impI)
        fix i assume "i < mid + 1"
        then have "i \<le> mid" by simp
        then have "array ! i \<le> array ! mid"
          using \<open>sorted array\<close> m "1.prems"(2) by (auto intro: sorted_nth_mono)
        with le show "array ! i \<le> v" by simp
      qed
      have eq: "sortedLastIndex_loop array v low high = sortedLastIndex_loop array v (mid + 1) high"
        using True le by (subst sortedLastIndex_loop.simps) (simp add: mid_def Let_def)
      have "mid + 1 \<le> high" using m by simp
      from "1.IH"(1)[OF True mid_def le this "1.prems"(2,3) a "1.prems"(5)] m
      show ?thesis unfolding eq by auto
    next
      case gt: False
      have b: "\<forall>i. mid \<le> i \<and> i < length array \<longrightarrow> v < array ! i"
      proof (intro allI impI)
        fix i assume i: "mid \<le> i \<and> i < length array"
        then have "array ! mid \<le> array ! i"
          using \<open>sorted array\<close> by (auto intro: sorted_nth_mono)
        with gt show "v < array ! i" by simp
      qed
      have eq: "sortedLastIndex_loop array v low high = sortedLastIndex_loop array v low mid"
        using True gt by (subst sortedLastIndex_loop.simps) (simp add: mid_def Let_def)
      have "mid \<le> length array" using m "1.prems"(2) by simp
      from "1.IH"(2)[OF True mid_def gt m(1) this "1.prems"(3,4) b] m
      show ?thesis unfolding eq by auto
    qed
  qed
qed

lemma sortedLastIndex_sorted:
  assumes "sorted xs"
  shows "sortedLastIndex xs v \<le> length xs"
    and "\<forall>i<sortedLastIndex xs v. xs ! i \<le> v"
    and "\<forall>i. sortedLastIndex xs v \<le> i \<and> i < length xs \<longrightarrow> v < xs ! i"
  using sortedLastIndex_loop_bounds[of 0 "length xs" xs v] assms
  by (auto simp: sortedLastIndex_def)

lemma starts_from_nth:
  "i < length fs \<Longrightarrow> starts_from t fs ! i = t + sum_list (map Feature_getLength (take i fs))"
proof (induction fs arbitrary: t i)
  case Nil
  then show ?case by simp
next
  case (Cons f fs)
  then show ?case by (cases i) (auto simp: add.assoc)
qed

lemma sorted_starts_from:
  "\<forall>f\<in>set fs. 0 \<le> Feature_getLength f \<Longrightarrow> sorted (starts_from t fs)"
proof (induction fs arbitrary: t)
  case Nil
  then show ?case by simp
next
  case (Cons f fs)
  have "t \<le> x" if "x \<in> set (starts_from (t + Feature_getLength f) fs)" for x
  proof -
    from that obtain i where i: "i < length fs" "x = starts_from (t + Feature_getLength f) fs ! i"
      by (auto simp: in_set_conv_nth)
    have "0 \<le> sum_list (map Feature_getLength (take i fs))"
      using Cons.prems by (auto intro!: sum_list_nonneg dest!: in_set_takeD)
    with i Cons.prems show ?thesis by (simp add: starts_from_nth)
  qed
  with Cons show ?case by auto
qed

section \<open>Constructed contexts and the owner of a base\<close>

lemma NavigationContext_new_Inr:
  assumes "NavigationContext_new nm fs = Inr ctx"
  shows "distinct fs" and "features ctx = fs"
    and "sortedFeatureStarts ctx = starts_from 0 fs"
    and "totalBases ctx = sum_list (map Feature_getLength fs)"
    and "featuresForChr ctx = groupBy (\<lambda>f. chr (locus f)) fs"
    and "startCoordinateForFeature ctx x = map_of (zip fs (starts_from 0 fs)) x"
proof -
  let ?c = "\<lparr>ctxName = nm, features = fs, sortedFeatureStarts = [],
        startCoordinateForFeature = Map.empty,
        featuresForChr = groupBy (\<lambda>f. chr (locus f)) fs,
        totalBases = 0\<rparr>"
  show d: "distinct fs"
    using assms construct_loop_dup[of fs ?c] by (auto simp: NavigationContext_new_def)
  have "\<forall>f\<in>set fs. startCoordinateForFeature ?c f = None" by simp
  from construct_loop_ok[OF d this] assms
  have p: "features ctx = fs" "sortedFeatureStarts ctx = starts_from 0 fs"
    "totalBases ctx = sum_list (map Feature_getLength fs)"
    "featuresForChr ctx = groupBy (\<lambda>f. chr (locus f)) fs"
    "startCoordinateForFeature ctx x =
       (case map_of (zip fs (starts_from 0 fs)) x of Some v \<Rightarrow> Some v
        | None \<Rightarrow> startCoordinateForFeature ?c x)"
    by (auto simp: NavigationContext_new_def)
  from p(1-4) show "features ctx = fs" "sortedFeatureStarts ctx = starts_from 0 fs"
    "totalBases ctx = sum_list (map Feature_getLength fs)"
    "featuresForChr ctx = groupBy (\<lambda>f. chr (locus f)) fs" .
  from p(5) show "startCoordinateForFeature ctx x = map_of (zip fs (starts_from 0 fs)) x"
    by (cases "map_of (zip fs (starts_from 0 fs)) x") (simp_all del: map_of_zip_is_None)
qed

lemma NavigationContext_new_distinct:
  "distinct fs \<Longrightarrow> \<exists>ctx. NavigationContext_new nm fs = Inr ctx"
  using construct_loop_ok[of fs "\<lparr>ctxName = nm, features = fs, sortedFeatureStarts = [],
        startCoordinateForFeature = Map.empty,
        featuresForChr = groupBy (\<lambda>f. chr (locus f)) fs,
        totalBases = 0\<rparr>"]
  by (auto simp: NavigationContext_new_def)

lemma getFeatureStart_nth:
  assumes "NavigationContext_new nm fs = Inr ctx" "i < length fs"
  shows "getFeatureStart ctx (fs ! i) = Inr (sortedFeatureStarts ctx ! i)"
  using NavigationContext_new_Inr[OF assms(1)] assms(2)
  by (simp add: getFeatureStart_def map_of_zip_nth)

lemma starts_from_Suc:
  "i < length fs \<Longrightarrow>
   starts_from t fs ! i + Feature_getLength (fs ! i) =
     (if Suc i < length fs then starts_from t fs ! Suc i
      else t + sum_list (map Feature_getLength fs))"
proof -
  assume i: "i < length fs"
  have s: "sum_list (map Feature_getLength (take (Suc i) fs)) =
           sum_list (map Feature_getLength (take i fs)) + Feature_getLength (fs ! i)"
    using i by (simp add: take_Suc_conv_app_nth)
  show ?thesis
  proof (cases "Suc i < length fs")
    case True
    then show ?thesis using i s by (simp add: starts_from_nth)
  next
    case False
    then have "take (Suc i) fs = fs" using i by simp
    with s False i show ?thesis by (simp add: starts_from_nth)
  qed
qed

lemma convertBaseToFeatureCoordinate_owner:
  assumes new: "NavigationContext_new nm fs = Inr ctx"
    and len: "\<forall>f\<in>set fs. 0 \<le> Feature_getLength f"
    and i: "i < length fs"
    and lo: "sortedFeatureStarts ctx ! i \<le> b"
    and hi: "b < sortedFeatureStarts ctx ! i + Feature_getLength (fs ! i)"
  shows "convertBaseToFeatureCoordinate ctx b =
           Inr \<lparr>feature = fs ! i, relativeStart = b - sortedFeatureStarts ctx ! i,
                relativeEnd = b - sortedFeatureStarts ctx ! i\<rparr>"
proof -
  note c = NavigationContext_new_Inr[OF new]
  let ?ss = "starts_from 0 fs"
  let ?r = "sortedLastIndex ?ss b"
  have srt: "sorted ?ss" using len by (rule sorted_starts_from)
  note sl = sortedLastIndex_sorted[OF srt, of b]
  have s0: "0 \<le> ?ss ! i"
    using i len by (auto simp: starts_from_nth intro!: sum_list_nonneg dest!: in_set_takeD)
  have tot: "?ss ! i + Feature_getLength (fs ! i) \<le> sum_list (map Feature_getLength fs)"
  proof -
    have "sum_list (map Feature_getLength fs) =
          sum_list (map Feature_getLength (take (Suc i) fs)) + sum_list (map Feature_getLength (drop (Suc i) fs))"
      by (metis append_take_drop_id map_append sum_list_append)
    moreover have "0 \<le> sum_list (map Feature_getLength (drop (Suc i) fs))"
      using len by (auto intro!: sum_list_nonneg dest!: in_set_dropD)
    ultimately show ?thesis using i by (simp add: starts_from_nth take_Suc_conv_app_nth)
  qed
  have valid: "getIsValidBase ctx b"
    using lo hi s0 tot c(3,4) by (simp add: getIsValidBase_def)
  have "i < ?r"
  proof (rule ccontr)
    assume "\<not> i < ?r"
    then have "b < ?ss ! i" using sl(3) i by simp
    with lo c(3) show False by simp
  qed
  moreover have "?r \<le> Suc i"
  proof (rule ccontr)
    assume "\<not> ?r \<le> Suc i"
    then have lt: "Suc i < ?r" by simp
    then have "?ss ! Suc i \<le> b" using sl(2) by simp
    moreover have "Suc i < length fs" using lt sl(1) by simp
    ultimately show False using starts_from_Suc[OF i, of 0] hi c(3) by simp
  qed
  ultimately have r: "?r = Suc i" by simp
  show ?thesis
    using valid r i c(2,3) by (simp add: convertBaseToFeatureCoordinate_def Let_def)
qed

lemma valid_base_owner:
  assumes new: "NavigationContext_new nm fs = Inr ctx"
    and len: "\<forall>f\<in>set fs. 0 \<le> Feature_getLength f"
    and valid: "getIsValidBase ctx b"
  shows "\<exists>i<length fs. sortedFeatureStarts ctx ! i \<le> b
            \<and> b < sortedFeatureStarts ctx ! i + Feature_getLength (fs ! i)"
proof -
  note c = NavigationContext_new_Inr[OF new]
  let ?ss = "starts_from 0 fs"
  let ?r = "sortedLastIndex ?ss b"
  have srt: "sorted ?ss" using len by (rule sorted_starts_from)
  note sl = sortedLastIndex_sorted[OF srt, of b]
  have b: "0 \<le> b" "b < sum_list (map Feature_getLength fs)"
    using valid c(4) by (auto simp: getIsValidBase_def)
  then have ne: "fs \<noteq> []" by auto
  have "0 < ?r"
  proof (rule ccontr)
    assume "\<not> 0 < ?r"
    then have "b < ?ss ! 0" using sl(3) ne by simp
    with b ne show False by (simp add: starts_from_nth)
  qed
  then obtain i where r: "?r = Suc i" by (cases ?r) auto
  have i: "i < length fs" using r sl(1) by simp
  have lo: "?ss ! i \<le> b" using sl(2) r by simp
  have hi: "b < ?ss ! i + Feature_getLength (fs ! i)"
  proof (cases "Suc i < length fs")
    case True
    then have "b < ?ss ! Suc i" using sl(3) r by simp
    with starts_from_Suc[OF i, of 0] True show ?thesis by simp
  next
    case False
    with starts_from_Suc[OF i, of 0] b show ?thesis by simp
  qed
  show ?thesis using i lo hi c(3) by auto
qed

lemma findIndex_from_nth:
  "distinct xs \<Longrightarrow> i < length xs \<Longrightarrow> findIndex_from (\<lambda>x. x = xs ! i) xs k = k + int i"
proof (induction xs arbitrary: i k)
  case Nil
  then show ?case by simp
next
  case (Cons x xs)
  then show ?case by (cases i) auto
qed

lemma findIndex_nth:
  "distinct xs \<Longrightarrow> i < length xs \<Longrightarrow> findIndex (\<lambda>x. x = xs ! i) xs = int i"
  by (simp add: findIndex_def findIndex_from_nth)

section \<open>Round trip between context and feature coordinates\<close>

text \<open>
  The binary search returns a positive index whenever the first element is at most the
  value sought, whether or not the array is sorted; hence a valid base always has a feature.
\<close>

lemma sortedLastIndex_loop_pos:
  "low \<le> high \<Longrightarrow> high \<le> length xs \<Longrightarrow> 0 < high \<Longrightarrow> (low = 0 \<longrightarrow> xs ! 0 \<le> v) \<Longrightarrow>
   0 < sortedLastIndex_loop xs v low high \<and> sortedLastIndex_loop xs v low high \<le> high"
proof (induction xs v low high rule: sortedLastIndex_loop.induct)
  case (1 array v low high)
  show ?case
  proof (cases "low < high")
    case False
    with "1.prems" show ?thesis by (simp add: sortedLastIndex_loop.simps)
  next
    case True
    define mid where "mid = (low + high) div 2"
    have m: "low \<le> mid" "mid < high" using True by (auto simp: mid_def)
    show ?thesis
    proof (cases "array ! mid \<le> v")
      case le: True
      have eq: "sortedLastIndex_loop array v low high = sortedLastIndex_loop array v (mid + 1) high"
        using True le by (subst sortedLastIndex_loop.simps) (simp add: mid_def Let_def)
      have a: "mid + 1 \<le> high" using m by simp
      have b: "mid + 1 = 0 \<longrightarrow> array ! 0 \<le> v" by simp
      from "1.IH"(1)[OF True mid_def le a "1.prems"(2,3) b] show ?thesis unfolding eq .
    next
      case gt: False
      have eq: "sortedLastIndex_loop array v low high = sortedLastIndex_loop array v low mid"
        using True gt by (subst sortedLastIndex_loop.simps) (simp add: mid_def Let_def)
      have a: "mid \<le> length array" using m "1.prems"(2) by simp
      have b: "0 < mid"
      proof (rule ccontr)
        assume "\<not> 0 < mid"
        then have "mid = 0" "low = 0" using m by simp_all
        with "1.prems"(4) gt show False by simp
      qed
      from "1.IH"(2)[OF True mid_def gt m(1) a b "1.prems"(4)] m show ?thesis unfolding eq by simp
    qed
  qed
qed

lemma convertBaseToFeatureCoordinate_valid:
  assumes new: "NavigationContext_new nm fs = Inr ctx"
    and valid: "getIsValidBase ctx b"
  shows "\<exists>i<length fs. convertBaseToFeatureCoordinate ctx b =
           Inr \<lparr>feature = fs ! i, relativeStart = b - sortedFeatureStarts ctx ! i,
                relativeEnd = b - sortedFeatureStarts ctx ! i\<rparr>"
proof -
  note c = NavigationContext_new_Inr[OF new]
  let ?ss = "starts_from 0 fs"
  let ?r = "sortedLastIndex ?ss b"
  have b: "0 \<le> b" "b < sum_list (map Feature_getLength fs)"
    using valid c(4) by (auto simp: getIsValidBase_def)
  then have ne: "fs \<noteq> []" by auto
  then have "?ss ! 0 = 0" by (cases fs) simp_all
  with b ne have "0 < ?r \<and> ?r \<le> length ?ss"
    unfolding sortedLastIndex_def by (intro sortedLastIndex_loop_pos) simp_all
  then obtain i where r: "?r = Suc i" and i: "i < length fs" by (cases ?r) auto
  have "convertBaseToFeatureCoordinate ctx b =
           Inr \<lparr>feature = fs ! i, relativeStart = b - sortedFeatureStarts ctx ! i,
                relativeEnd = b - sortedFeatureStarts ctx ! i\<rparr>"
    using valid r i c(2,3) by (simp add: convertBaseToFeatureCoordinate_def Let_def)
  with i show ?thesis by blast
qed

text \<open>
  Claim C1.  In every context built by the constructor, converting a valid context
  coordinate \<open>b\<close> to a feature coordinate and back to context coordinates yields the
  interval that starts and ends at \<open>b\<close>.
\<close>

theorem C1_round_trip:
  assumes "NavigationContext_new nm fs = Inr ctx"
    and "0 \<le> b" and "b < getTotalBases ctx"
  shows "bind_err (convertBaseToFeatureCoordinate ctx b) (convertFeatureSegmentToContextCoordinates ctx)
           = Inr \<lparr>start = b, endp = b\<rparr>"
proof -
  have "getIsValidBase ctx b" using assms(2,3) by (simp add: getIsValidBase_def getTotalBases_def)
  from convertBaseToFeatureCoordinate_valid[OF assms(1) this] obtain i where
    i: "i < length fs"
       "convertBaseToFeatureCoordinate ctx b =
           Inr \<lparr>feature = fs ! i, relativeStart = b - sortedFeatureStarts ctx ! i,
                relativeEnd = b - sortedFeatureStarts ctx ! i\<rparr>" by blast
  show ?thesis
    using i(2) getFeatureStart_nth[OF assms(1) i(1)]
    by (simp add: bind_err_def convertFeatureSegmentToContextCoordinates_def)
qed

lemma gaplessExample_new: "\<exists>ctx. NavigationContext_new ''ctx'' gaplessExample = Inr ctx"
  by (simp add: NavigationContext_new_def gaplessExample_def makeGap_def)

lemma gaplessExample_lengths: "\<forall>f\<in>set gaplessExample. 0 \<le> Feature_getLength f"
  by (simp add: gaplessExample_def makeGap_def Feature_getLength_def getLength_def)

lemma gaplessExample_total:
  "NavigationContext_new nm gaplessExample = Inr ctx \<Longrightarrow> getTotalBases ctx = 30"
  by (simp add: NavigationContext_new_Inr(4) getTotalBases_def gaplessExample_def makeGap_def
      Feature_getLength_def getLength_def)

theorem C1_round_trip_witness:
  "\<exists>ctx. NavigationContext_new ''ctx'' gaplessExample = Inr ctx
     \<and> (0::int) \<le> 15 \<and> 15 < getTotalBases ctx
     \<and> bind_err (convertBaseToFeatureCoordinate ctx 15) (convertFeatureSegmentToContextCoordinates ctx)
           = Inr \<lparr>start = 15, endp = 15\<rparr>"
proof -
  from gaplessExample_new obtain ctx where c: "NavigationContext_new ''ctx'' gaplessExample = Inr ctx" ..
  have t: "15 < getTotalBases ctx" using gaplessExample_total[OF c] by simp
  have z: "(0::int) \<le> 15" by simp
  from C1_round_trip[OF c z t] c t
  show ?thesis by auto
qed

section \<open>Duplicate features\<close>

text \<open>
  The constructor keys its map by the feature objects themselves: it fails exactly when the
  same object occurs twice in the list.
\<close>

lemma NavigationContext_new_fails_iff:
  "NavigationContext_new nm fs = Inl Error \<longleftrightarrow> \<not> distinct fs"
proof
  assume "NavigationContext_new nm fs = Inl Error"
  then show "\<not> distinct fs" using NavigationContext_new_distinct[of fs nm] by auto
next
  assume "\<not> distinct fs"
  then show "NavigationContext_new nm fs = Inl Error"
    by (simp add: NavigationContext_new_def construct_loop_dup)
qed

lemma distinct_names_distinct: "distinct (map name fs) \<Longrightarrow> distinct fs"
  by (rule distinct_map[THEN iffD1, THEN conjunct1])

text \<open>
  Claim C2.  The claim asks that construction fail whenever two features of the list have
  the same name.  Evaluated on two distinct gap objects that both carry the name
  \<open>Gap\<close>, the constructor succeeds and returns a context of 15 bases.
\<close>

theorem C2_same_name_accepted:
  "map name sameNameExample = [''Gap'', ''Gap'']
   \<and> (\<exists>ctx. NavigationContext_new ''ctx'' sameNameExample = Inr ctx \<and> getTotalBases ctx = 15)"
  by (simp add: NavigationContext_new_def sameNameExample_def makeGap_def getTotalBases_def
      Feature_getLength_def getLength_def)

section \<open>Gapless coordinates\<close>

lemma toGaplessCoordinate_owner:
  assumes new: "NavigationContext_new nm fs = Inr ctx"
    and len: "\<forall>f\<in>set fs. 0 \<le> Feature_getLength f"
    and i: "i < length fs" "sortedFeatureStarts ctx ! i \<le> b"
       "b < sortedFeatureStarts ctx ! i + Feature_getLength (fs ! i)"
  shows "toGaplessCoordinate ctx b =
      Inr (b - (sum_list (map Feature_getLength (filter isGapFeature (take i fs)))
               + (if isGapFeature (fs ! i) then b - sortedFeatureStarts ctx ! i else 0)))"
  using convertBaseToFeatureCoordinate_owner[OF new len i] NavigationContext_new_Inr(1,2)[OF new] i(1)
  by (simp add: toGaplessCoordinate_def bind_err_def findIndex_nth slice0_def Let_def)

lemma gaplessExample_eval:
  "bind_err (NavigationContext_new ''ctx'' gaplessExample) (\<lambda>ctx. toGaplessCoordinate ctx 5) = Inr 5"
  "bind_err (NavigationContext_new ''ctx'' gaplessExample) (\<lambda>ctx. toGaplessCoordinate ctx 15) = Inr 10"
  "bind_err (NavigationContext_new ''ctx'' gaplessExample) (\<lambda>ctx. toGaplessCoordinate ctx 25) = Inr 15"
  by (simp_all add: NavigationContext_new_def gaplessExample_def makeGap_def bind_err_def
     toGaplessCoordinate_def convertBaseToFeatureCoordinate_def getIsValidBase_def
     sortedLastIndex_def sortedLastIndex_loop.simps Feature_getLength_def getLength_def
     findIndex_def slice0_def isGapFeature_def GAP_CHR_def Let_def)

text \<open>
  Claim C7.  On the context [10bp feature, 10bp gap, 10bp feature], \<open>toGaplessCoordinate\<close>
  returns 5 for 5, 10 for 15 and 15 for 25.  In general, in a context built by the
  constructor from features of non-negative length, for a base \<open>b\<close> that lies in the span
  of the feature of index \<open>i\<close>, the result is \<open>b\<close> minus the total length of the gap
  features before index \<open>i\<close>, minus the offset of \<open>b\<close> in feature \<open>i\<close> when that
  feature is a gap.
\<close>

theorem C7_toGaplessCoordinate:
  "bind_err (NavigationContext_new ''ctx'' gaplessExample) (\<lambda>ctx. toGaplessCoordinate ctx 5) = Inr 5
   \<and> bind_err (NavigationContext_new ''ctx'' gaplessExample) (\<lambda>ctx. toGaplessCoordinate ctx 15) = Inr 10
   \<and> bind_err (NavigationContext_new ''ctx'' gaplessExample) (\<lambda>ctx. toGaplessCoordinate ctx 25) = Inr 15
   \<and> (NavigationContext_new nm fs = Inr ctx \<and> (\<forall>f\<in>set fs. 0 \<le> Feature_getLength f)
        \<and> i < length fs \<and> sortedFeatureStarts ctx ! i \<le> b
        \<and> b < sortedFeatureStarts ctx ! i + Feature_getLength (fs ! i)
      \<longrightarrow> toGaplessCoordinate ctx b =
            Inr (b - (sum_list (map Feature_getLength (filter isGapFeature (take i fs)))
                     + (if isGapFeature (fs ! i) then b - sortedFeatureStarts ctx ! i else 0))))"
  using gaplessExample_eval toGaplessCoordinate_owner[of nm fs ctx i b] by blast

theorem C7_toGaplessCoordinate_witness:
  "\<exists>ctx. NavigationContext_new ''ctx'' gaplessExample = Inr ctx
     \<and> (\<forall>f\<in>set gaplessExample. 0 \<le> Feature_getLength f)
     \<and> (1::nat) < length gaplessExample \<and> sortedFeatureStarts ctx ! 1 = 10
     \<and> isGapFeature (gaplessExample ! 1)
     \<and> toGaplessCoordinate ctx 15 = Inr 10"
proof -
  from gaplessExample_new obtain ctx where c: "NavigationContext_new ''ctx'' gaplessExample = Inr ctx" ..
  have s: "sortedFeatureStarts ctx ! 1 = 10"
    using NavigationContext_new_Inr(3)[OF c]
    by (simp add: gaplessExample_def makeGap_def Feature_getLength_def getLength_def)
  have l: "(1::nat) < length gaplessExample" by (simp add: gaplessExample_def)
  have g: "isGapFeature (gaplessExample ! 1)"
    by (simp add: gaplessExample_def makeGap_def isGapFeature_def)
  have h: "Feature_getLength (gaplessExample ! 1) = 10"
    by (simp add: gaplessExample_def makeGap_def Feature_getLength_def getLength_def)
  have t: "take 1 gaplessExample = [gaplessExample ! 0]" "\<not> isGapFeature (gaplessExample ! 0)"
    by (simp_all add: gaplessExample_def makeGap_def isGapFeature_def GAP_CHR_def)
  from C7_toGaplessCoordinate[of "''ctx''" gaplessExample ctx 1 15]
  have "toGaplessCoordinate ctx 15 = Inr 10"
    using c gaplessExample_lengths l s g h t by simp
  with c gaplessExample_lengths l s g show ?thesis by auto
qed

section \<open>Row arrangement\<close>

lemma findIndex_from_none:
  "\<forall>x\<in>set xs. \<not> p x \<Longrightarrow> findIndex_from p xs k = -1"
  by (induction xs arbitrary: k) simp_all

lemma findIndex_from_some:
  "\<exists>x\<in>set xs. p x \<Longrightarrow>
   \<exists>n<length xs. findIndex_from p xs k = k + int n \<and> p (xs ! n) \<and> (\<forall>j<n. \<not> p (xs ! j))"
proof (induction xs arbitrary: k)
  case Nil
  then show ?case by simp
next
  case (Cons x xs)
  show ?case
  proof (cases "p x")
    case True
    then have "findIndex_from p (x # xs) k = k + int 0 \<and> p ((x # xs) ! 0) \<and> (\<forall>j<0. \<not> p ((x # xs) ! j))"
      by simp
    then show ?thesis by blast
  next
    case False
    with Cons.prems have "\<exists>y\<in>set xs. p y" by simp
    from Cons.IH[OF this, of "k + 1"] obtain n where
      n: "n < length xs" "findIndex_from p xs (k + 1) = k + 1 + int n" "p (xs ! n)"
         "\<forall>j<n. \<not> p (xs ! j)" by blast
    have a: "Suc n < length (x # xs)" using n(1) by simp
    have b: "findIndex_from p (x # xs) k = k + int (Suc n)" using False n(2) by simp
    have c: "p ((x # xs) ! Suc n)" using n(3) by simp
    have d: "\<forall>j<Suc n. \<not> p ((x # xs) ! j)"
    proof (intro allI impI)
      fix j assume "j < Suc n"
      then show "\<not> p ((x # xs) ! j)" using False n(4) by (cases j) simp_all
    qed
    from a b c d show ?thesis by blast
  qed
qed

lemma findIndex_first_fit:
  "first_fit_row occ s (findIndex (\<lambda>m. maxX_less m s) occ)"
proof (cases "\<exists>j<length occ. maxX_less (occ ! j) s")
  case False
  then have "\<forall>x\<in>set occ. \<not> maxX_less x s" by (metis in_set_conv_nth)
  then have "findIndex (\<lambda>m. maxX_less m s) occ = -1"
    unfolding findIndex_def by (rule findIndex_from_none)
  with False show ?thesis unfolding first_fit_row_def by simp
next
  case True
  then have "\<exists>x\<in>set occ. maxX_less x s" by (metis nth_mem)
  from findIndex_from_some[OF this, of 0] obtain n where
    n: "n < length occ" "findIndex_from (\<lambda>m. maxX_less m s) occ 0 = int n"
       "maxX_less (occ ! n) s" "\<forall>j<n. \<not> maxX_less (occ ! j) s" by auto
  have "findIndex (\<lambda>m. maxX_less m s) occ = int n" by (simp add: findIndex_def n(2))
  with True n show ?thesis unfolding first_fit_row_def by simp
qed

lemma first_fit_rowD:
  assumes "first_fit_row occ s r" and e: "\<exists>j<length occ. maxX_less (occ ! j) s"
  shows "0 \<le> r \<and> nat r < length occ \<and> maxX_less (occ ! nat r) s \<and> (\<forall>j<nat r. \<not> maxX_less (occ ! j) s)"
  using assms(1)[unfolded first_fit_row_def if_P[OF e]] .

lemma first_fit_row_unique:
  assumes "first_fit_row occ s r" "first_fit_row occ s r'"
  shows "r = r'"
proof (cases "\<exists>j<length occ. maxX_less (occ ! j) s")
  case False
  from assms[unfolded first_fit_row_def if_not_P[OF False]] show ?thesis by simp
next
  case True
  note a = first_fit_rowD[OF assms(1) True] and b = first_fit_rowD[OF assms(2) True]
  have "\<not> nat r < nat r'" using a b by blast
  moreover have "\<not> nat r' < nat r" using a b by blast
  ultimately have "nat r = nat r'" using nat_neq_iff by blast
  moreover have "0 \<le> r" "0 \<le> r'" using a b by blast+
  ultimately show ?thesis by (metis nat_0_le)
qed


lemma mset_insert_sorted: "mset (insert_sorted cmp x ys) = add_mset x (mset ys)"
  by (induction ys) auto

lemma mset_array_sort: "mset (array_sort cmp xs) = mset xs"
  by (induction xs) (auto simp: array_sort_def mset_insert_sorted)

lemma set_insert_sorted: "set (insert_sorted cmp x ys) = insert x (set ys)"
  by (induction ys) auto

lemma processed_before_iff: "processed_before x y \<longleftrightarrow> compareIntervals x y \<le> 0"
  by (auto simp: processed_before_def compareIntervals_def Let_def)

lemma processed_before_total: "\<not> processed_before x y \<Longrightarrow> processed_before y x"
  by (auto simp: processed_before_def)

lemma processed_before_trans:
  "processed_before x y \<Longrightarrow> processed_before y z \<Longrightarrow> processed_before x z"
  by (auto simp: processed_before_def)

lemma sorted_insert_sorted:
  "sorted_wrt processed_before ys \<Longrightarrow> sorted_wrt processed_before (insert_sorted compareIntervals x ys)"
proof (induction ys)
  case Nil
  then show ?case by simp
next
  case (Cons y ys)
  show ?case
  proof (cases "compareIntervals x y \<le> 0")
    case True
    then have "processed_before x y" by (simp add: processed_before_iff)
    moreover have "\<forall>z\<in>set ys. processed_before x z"
      using \<open>processed_before x y\<close> Cons.prems by (auto elim: processed_before_trans)
    ultimately show ?thesis using True Cons.prems by simp
  next
    case False
    then have "processed_before y x"
      using processed_before_total[of x y] by (simp add: processed_before_iff)
    with Cons show ?thesis using False
      by (auto simp: set_insert_sorted)
  qed
qed

lemma sorted_sortIntervals: "sorted_wrt processed_before (sortIntervals xs)"
  by (induction xs) (auto simp: sortIntervals_def array_sort_def sorted_insert_sorted)

lemma mset_sortIntervals: "mset (sortIntervals xs) = mset xs"
  by (simp add: sortIntervals_def mset_array_sort)

lemma sortIntervals_sorted_id:
  "sorted_wrt processed_before xs \<Longrightarrow> sortIntervals xs = xs"
proof (induction xs)
  case Nil
  then show ?case by (simp add: sortIntervals_def array_sort_def)
next
  case (Cons x xs)
  then have "sortIntervals xs = xs" by simp
  then have "sortIntervals (x # xs) = insert_sorted compareIntervals x xs"
    by (simp add: sortIntervals_def array_sort_def)
  also have "\<dots> = x # xs"
    using Cons.prems by (cases xs) (auto simp: processed_before_iff)
  finally show ?case .
qed

lemma arrange_loop_prefix:
  "arrange_loop a ys m acc = acc @ arrange_loop a ys m []"
proof (induction ys arbitrary: m acc)
  case Nil
  show ?case by simp
next
  case (Cons y ys)
  obtain row m' where s: "arrange_step a y m = (row, m')" by (cases "arrange_step a y m")
  have "arrange_loop a (y # ys) m acc = (acc @ [row]) @ arrange_loop a ys m' []"
    using s Cons.IH[of m' "acc @ [row]"] by simp
  moreover have "arrange_loop a (y # ys) m [] = [row] @ arrange_loop a ys m' []"
    using s Cons.IH[of m' "[row]"] by simp
  ultimately show ?case by simp
qed

lemma arrange_loop_Cons:
  "arrange_loop a (y # ys) m [] = fst (arrange_step a y m) # arrange_loop a ys (snd (arrange_step a y m)) []"
  using arrange_loop_prefix[of a ys "snd (arrange_step a y m)" "[fst (arrange_step a y m)]"]
  by (simp add: case_prod_unfold)

lemma length_arrange_loop: "length (arrange_loop a ys m []) = length ys"
  by (induction ys arbitrary: m) (simp_all add: arrange_loop_Cons del: arrange_loop.simps(2))

lemma arrange_loop_nth:
  "k < length ys \<Longrightarrow>
   arrange_loop a ys m [] ! k =
     fst (arrange_step a (ys ! k) (foldl (\<lambda>m interval. snd (arrange_step a interval m)) m (take k ys)))"
proof (induction ys arbitrary: m k)
  case Nil
  then show ?case by simp
next
  case (Cons y ys)
  show ?case
  proof (cases k)
    case 0
    then show ?thesis by (simp add: arrange_loop_Cons del: arrange_loop.simps(2))
  next
    case (Suc j)
    with Cons.prems have "j < length ys" by simp
    from Cons.IH[OF this] Suc show ?thesis
      by (simp add: arrange_loop_Cons del: arrange_loop.simps(2))
  qed
qed

lemma occupied_0: "occupied a ys 0 = replicate (nat (numRows a)) NegInfinity"
  by (simp add: occupied_def)

lemma occupied_Suc:
  "k < length ys \<Longrightarrow> occupied a ys (Suc k) = snd (arrange_step a (ys ! k) (occupied a ys k))"
  by (simp add: occupied_def take_Suc_conv_app_nth)

lemma arrange_rows_nth:
  "0 < numRows a \<Longrightarrow> k < length xs \<Longrightarrow>
   fst (arrange a xs) ! k = fst (arrange_step a (sortIntervals xs ! k) (occupied a (sortIntervals xs) k))"
proof -
  assume n: "0 < numRows a" and k: "k < length xs"
  have "length (sortIntervals xs) = length xs"
    using mset_sortIntervals[of xs] by (metis size_mset)
  with k show ?thesis using n
    by (simp add: arrange_def sortIntervals_call_def Let_def arrange_loop_nth occupied_def)
qed

lemma length_sortIntervals: "length (sortIntervals xs) = length xs"
  using mset_sortIntervals[of xs] by (metis size_mset)

lemma length_arrange_rows: "length (fst (arrange a xs)) = length xs"
  by (simp add: arrange_def sortIntervals_call_def Let_def length_arrange_loop length_sortIntervals)

lemma arrange_step_fst:
  "fst (arrange_step a y m) =
     findIndex (\<lambda>mx. maxX_less mx (baseToX (drawModel a) (start y) - getPadding a y)) m"
  by (simp add: arrange_step_def Let_def)

lemma arrange_step_snd:
  "snd (arrange_step a y m) =
     (if fst (arrange_step a y m) = -1 then m
      else m[nat (fst (arrange_step a y m)) := X (baseToX (drawModel a) (endp y) + getPadding a y)])"
  by (simp add: arrange_step_def Let_def)

lemmas example_defs = arrange_def sortIntervals_call_def exampleArranger_def sortIntervals_def array_sort_def compareIntervals_def
   getLength_def ivA_def ivB_def ivC_def ivD_def arrange_step_def findIndex_def numeral_2_eq_2

lemma arrange_example: "arrange exampleArranger [ivA, ivB, ivC, ivD] = ([0, 1, 0, -1], [ivA, ivB, ivC, ivD])"
  by (simp add: example_defs)

lemma arrange_example_BA: "arrange exampleArranger [ivB, ivA] = ([0, 1], [ivA, ivB])"
  by (simp add: example_defs)

lemma arrange_no_rows:
  "numRows a \<le> 0 \<Longrightarrow> arrange a xs = (replicate (length xs) (-1), xs)"
  by (simp add: arrange_def sortIntervals_call_def)

lemma arrange_snd: "0 < numRows a \<Longrightarrow> snd (arrange a xs) = sortIntervals xs"
  by (simp add: arrange_def sortIntervals_call_def Let_def)

lemma arrange_first_fit_nth:
  assumes "0 < numRows a" "k < length xs"
  shows "first_fit_row (occupied a (sortIntervals xs) k)
           (baseToX (drawModel a) (start (sortIntervals xs ! k)) - getPadding a (sortIntervals xs ! k))
           (fst (arrange a xs) ! k)"
  unfolding arrange_rows_nth[OF assms] arrange_step_fst by (rule findIndex_first_fit)

lemma occupied_step:
  assumes "0 < numRows a" "k < length xs"
  shows "occupied a (sortIntervals xs) (Suc k) =
           (if fst (arrange a xs) ! k = -1 then occupied a (sortIntervals xs) k
            else (occupied a (sortIntervals xs) k)
                   [nat (fst (arrange a xs) ! k) :=
                      X (baseToX (drawModel a) (endp (sortIntervals xs ! k)) + getPadding a (sortIntervals xs ! k))])"
proof -
  have "k < length (sortIntervals xs)" using assms(2) by (simp add: length_sortIntervals)
  from occupied_Suc[OF this, of a] show ?thesis
    unfolding arrange_rows_nth[OF assms] by (subst (asm) arrange_step_snd) simp
qed

text \<open>
  Claim C3.  With \<open>numRows \<le> 0\<close> every interval gets row -1.  Otherwise the intervals are
  processed in the order of \<open>sortIntervals\<close>, a permutation of the input in ascending
  start order with ties broken by longer interval first; the \<open>k\<close>-th processed interval
  gets the lowest-index row whose occupied coordinate is strictly less than its padded
  pixel start, or -1 if no row qualifies, and the occupied coordinate of the row found
  advances to the pixel end plus padding.  With two rows, A=[0,10), B=[5,15), C=[12,20)
  get rows 0, 1, 0, and a fourth interval [14,25) overlapping both rows gets -1.
\<close>

theorem C3_arrange_first_fit:
  "(numRows a \<le> 0 \<longrightarrow> fst (arrange a xs) = replicate (length xs) (-1))
   \<and> (0 < numRows a \<longrightarrow>
        mset (sortIntervals xs) = mset xs \<and> sorted_wrt processed_before (sortIntervals xs)
        \<and> length (fst (arrange a xs)) = length xs
        \<and> occupied a (sortIntervals xs) 0 = replicate (nat (numRows a)) NegInfinity
        \<and> (\<forall>k<length xs.
              first_fit_row (occupied a (sortIntervals xs) k)
                (baseToX (drawModel a) (start (sortIntervals xs ! k)) - getPadding a (sortIntervals xs ! k))
                (fst (arrange a xs) ! k)
              \<and> occupied a (sortIntervals xs) (Suc k) =
                  (if fst (arrange a xs) ! k = -1 then occupied a (sortIntervals xs) k
                   else (occupied a (sortIntervals xs) k)
                          [nat (fst (arrange a xs) ! k) :=
                             X (baseToX (drawModel a) (endp (sortIntervals xs ! k))
                                + getPadding a (sortIntervals xs ! k))])))
   \<and> fst (arrange exampleArranger [ivA, ivB, ivC, ivD]) = [0, 1, 0, -1]"
proof (intro conjI impI allI)
  show "fst (arrange exampleArranger [ivA, ivB, ivC, ivD]) = [0, 1, 0, -1]"
    by (simp add: arrange_example)
qed (simp_all add: arrange_no_rows mset_sortIntervals sorted_sortIntervals length_arrange_rows
      occupied_0 arrange_first_fit_nth occupied_step)

theorem C3_arrange_first_fit_witness:
  "0 < numRows exampleArranger \<and> (1::nat) < length [ivB, ivA]
   \<and> sortIntervals [ivB, ivA] = [ivA, ivB]
   \<and> occupied exampleArranger [ivA, ivB] 1 = [X 10, NegInfinity]
   \<and> first_fit_row [X 10, NegInfinity] 5 (fst (arrange exampleArranger [ivB, ivA]) ! 1)"
proof -
  have n: "0 < numRows exampleArranger" by (simp add: exampleArranger_def)
  have l: "(1::nat) < length [ivB, ivA]" by simp
  have s: "sortIntervals [ivB, ivA] = [ivA, ivB]"
    by (simp add: sortIntervals_def array_sort_def compareIntervals_def getLength_def ivA_def ivB_def)
  have o: "occupied exampleArranger [ivA, ivB] 1 = [X 10, NegInfinity]"
    by (simp add: occupied_def exampleArranger_def arrange_step_def findIndex_def ivA_def numeral_2_eq_2)
  have p: "baseToX (drawModel exampleArranger) (start ivB) - getPadding exampleArranger ivB = 5"
    by (simp add: exampleArranger_def ivB_def)
  from C3_arrange_first_fit[of exampleArranger "[ivB, ivA]"] n l
  have "first_fit_row (occupied exampleArranger (sortIntervals [ivB, ivA]) 1)
                (baseToX (drawModel exampleArranger) (start (sortIntervals [ivB, ivA] ! 1))
                   - getPadding exampleArranger (sortIntervals [ivB, ivA] ! 1))
                (fst (arrange exampleArranger [ivB, ivA]) ! 1)"
    by blast
  then have "first_fit_row [X 10, NegInfinity] 5 (fst (arrange exampleArranger [ivB, ivA]) ! 1)"
    by (simp add: s p o[unfolded One_nat_def])
  with n l s o show ?thesis by blast
qed

lemma insert_sorted_map:
  "insert_sorted cmp (f x) (map f ys) = map f (insert_sorted (\<lambda>i j. cmp (f i) (f j)) x ys)"
  by (induction ys) auto

lemma array_sort_map:
  "array_sort cmp (map f is) = map f (array_sort (\<lambda>i j. cmp (f i) (f j)) is)"
  by (induction "is") (simp_all add: array_sort_def insert_sorted_map)

lemma sortIntervals_positions: "sortIntervals xs = map (\<lambda>i. xs ! i) (sortPositions xs)"
proof -
  have "sortIntervals xs = array_sort compareIntervals (map (\<lambda>i. xs ! i) [0..<length xs])"
    by (simp add: sortIntervals_def map_nth)
  then show ?thesis by (simp add: array_sort_map sortPositions_def)
qed

lemma mset_sortPositions: "mset (sortPositions xs) = mset [0..<length xs]"
  by (simp add: sortPositions_def mset_array_sort)

lemma length_sortPositions: "length (sortPositions xs) = length xs"
  using mset_sortPositions[of xs] by (metis size_mset length_upt diff_zero)

lemma sortPositions_nth:
  assumes "k < length xs"
  shows "sortPositions xs ! k < length xs" and "sortIntervals xs ! k = xs ! (sortPositions xs ! k)"
proof -
  have k: "k < length (sortPositions xs)" using assms by (simp add: length_sortPositions)
  then have "sortPositions xs ! k \<in> set (sortPositions xs)" by simp
  then have "sortPositions xs ! k \<in> set [0..<length xs]"
    using mset_sortPositions[of xs] by (metis set_mset_mset)
  then show "sortPositions xs ! k < length xs" by simp
  show "sortIntervals xs ! k = xs ! (sortPositions xs ! k)"
    using k by (simp add: sortIntervals_positions)
qed




lemma sortPositions_example: "sortPositions [ivB, ivA] = [1, 0]"
  by (simp add: sortPositions_def array_sort_def compareIntervals_def getLength_def ivA_def ivB_def)

lemma sortIntervals_example: "sortIntervals [ivB, ivA] = [ivA, ivB]"
  by (simp add: sortIntervals_def array_sort_def compareIntervals_def getLength_def ivA_def ivB_def)

lemma occupied_example: "occupied exampleArranger [ivA, ivB] (Suc 0) = [X 10, NegInfinity]"
  by (simp add: occupied_def exampleArranger_def arrange_step_def findIndex_def ivA_def numeral_2_eq_2)

lemma arrange_step_example:
  "fst (arrange_step exampleArranger ivB [X 10, NegInfinity]) = 1"
  by (simp add: exampleArranger_def arrange_step_def findIndex_def ivB_def)

text \<open>
  Claim C4, as stated, fails: on the input [B, A] the returned array is [0, 1].  B, passed
  at position 0, is the second interval the loop processes, and the loop finds row 1 for
  it; the index returned at position 0 is 0, the row of A.
\<close>

theorem C4_original_order_counterexample:
  "fst (arrange exampleArranger [ivB, ivA]) = [0, 1]
   \<and> sortPositions [ivB, ivA] = [1, 0]
   \<and> fst (arrange_step exampleArranger ([ivB, ivA] ! 0)
            (occupied exampleArranger (sortIntervals [ivB, ivA]) 1)) = 1"
  by (simp add: arrange_example_BA sortPositions_example sortIntervals_example occupied_example
      arrange_step_example)

text \<open>
  Claim C4, amended.  The returned array has one index per interval.  With
  \<open>numRows \<le> 0\<close> every index is -1.  Otherwise the \<open>k\<close>-th returned index is the row that
  the loop finds for the \<open>k\<close>-th interval of the sorted order, which is the interval that
  was passed at position \<open>sortPositions xs ! k\<close> and stands at position \<open>k\<close> of the input
  array after the call; the returned array is aligned with the order in which the
  intervals were passed whenever that order was already sorted.
\<close>

theorem C4_rows_follow_sorted_order:
  "length (fst (arrange a xs)) = length xs
   \<and> (numRows a \<le> 0 \<longrightarrow> fst (arrange a xs) = replicate (length xs) (-1))
   \<and> (0 < numRows a \<longrightarrow>
        (\<forall>k<length xs.
           sortPositions xs ! k < length xs
           \<and> snd (arrange a xs) ! k = xs ! (sortPositions xs ! k)
           \<and> fst (arrange a xs) ! k =
               fst (arrange_step a (xs ! (sortPositions xs ! k)) (occupied a (snd (arrange a xs)) k))))
   \<and> (0 < numRows a \<and> sorted_wrt processed_before xs \<longrightarrow>
        (\<forall>k<length xs. fst (arrange a xs) ! k = fst (arrange_step a (xs ! k) (occupied a xs k))))"
proof (intro conjI impI allI)
  show "length (fst (arrange a xs)) = length xs" by (rule length_arrange_rows)
next
  assume "numRows a \<le> 0"
  then show "fst (arrange a xs) = replicate (length xs) (- 1)" by (simp add: arrange_no_rows)
next
  fix k assume n: "0 < numRows a" and k: "k < length xs"
  show "sortPositions xs ! k < length xs" using k by (rule sortPositions_nth(1))
  show "snd (arrange a xs) ! k = xs ! (sortPositions xs ! k)"
    using n k by (simp add: arrange_snd sortPositions_nth(2))
  show "fst (arrange a xs) ! k =
               fst (arrange_step a (xs ! (sortPositions xs ! k)) (occupied a (snd (arrange a xs)) k))"
    using n k by (simp add: arrange_snd arrange_rows_nth sortPositions_nth(2))
next
  fix k assume a: "0 < numRows a \<and> sorted_wrt processed_before xs" and k: "k < length xs"
  then have "sortIntervals xs = xs" by (simp add: sortIntervals_sorted_id)
  with arrange_rows_nth[of a k xs] a k
  show "fst (arrange a xs) ! k = fst (arrange_step a (xs ! k) (occupied a xs k))" by simp
qed

theorem C4_rows_follow_sorted_order_witness:
  "0 < numRows exampleArranger \<and> (1::nat) < length [ivB, ivA]
   \<and> sortPositions [ivB, ivA] ! 1 = 0
   \<and> snd (arrange exampleArranger [ivB, ivA]) ! 1 = ivB
   \<and> fst (arrange exampleArranger [ivB, ivA]) ! 1 = 1
   \<and> sorted_wrt processed_before [ivA, ivB]
   \<and> fst (arrange exampleArranger [ivA, ivB]) ! 1 = 1"
proof -
  have n: "0 < numRows exampleArranger" by (simp add: exampleArranger_def)
  have l: "(1::nat) < length [ivB, ivA]" "(1::nat) < length [ivA, ivB]" by simp_all
  have sp: "sortPositions [ivB, ivA] ! 1 = 0" by (simp add: sortPositions_example)
  have o: "sorted_wrt processed_before [ivA, ivB]"
    by (simp add: processed_before_def ivA_def ivB_def)
  note t = C4_rows_follow_sorted_order[of exampleArranger "[ivB, ivA]"]
  from t n l(1) have a: "snd (arrange exampleArranger [ivB, ivA]) ! 1 = [ivB, ivA] ! (sortPositions [ivB, ivA] ! 1)"
    by blast
  from t n l(1) have b: "fst (arrange exampleArranger [ivB, ivA]) ! 1 =
      fst (arrange_step exampleArranger ([ivB, ivA] ! (sortPositions [ivB, ivA] ! 1))
            (occupied exampleArranger (snd (arrange exampleArranger [ivB, ivA])) 1))" by blast
  have a': "snd (arrange exampleArranger [ivB, ivA]) ! 1 = ivB"
    using a by (simp add: sortPositions_example)
  have sn: "snd (arrange exampleArranger [ivB, ivA]) = [ivA, ivB]"
    by (simp add: arrange_example_BA)
  have b': "fst (arrange exampleArranger [ivB, ivA]) ! 1 = 1"
    using b by (simp add: sortPositions_example sn occupied_example arrange_step_example)
  from C4_rows_follow_sorted_order[of exampleArranger "[ivA, ivB]"] n o l(2)
  have "fst (arrange exampleArranger [ivA, ivB]) ! 1
          = fst (arrange_step exampleArranger ([ivA, ivB] ! 1) (occupied exampleArranger [ivA, ivB] 1))"
    by blast
  then have c: "fst (arrange exampleArranger [ivA, ivB]) ! 1 = 1"
    by (simp add: occupied_example arrange_step_example)
  from n l(1) sp a' b' o c show ?thesis by blast
qed




section \<open>Placement of interactions and of feature segments\<close>

lemma getFeatureStart_member:
  assumes "NavigationContext_new nm fs = Inr ctx" "f \<in> set fs"
  shows "\<exists>c. getFeatureStart ctx f = Inr c"
proof -
  from assms(2) obtain i where "i < length fs" "fs ! i = f" by (auto simp: in_set_conv_nth)
  with getFeatureStart_nth[OF assms(1), of i] show ?thesis by auto
qed

lemma getGenomeOverlap_feature:
  "getGenomeOverlap s ci = Some ov \<Longrightarrow> feature ov = feature s"
  by (auto simp: getGenomeOverlap_def split: option.splits)

lemma convertGenome_loop_total:
  assumes new: "NavigationContext_new nm fs = Inr ctx"
  shows "set gs \<subseteq> set fs \<Longrightarrow> \<exists>cs. convertGenome_loop ctx ci gs acc = Inr cs"
proof (induction gs arbitrary: acc)
  case Nil
  show ?case by simp
next
  case (Cons g gs)
  then have g: "g \<in> set fs" and gs: "set gs \<subseteq> set fs" by auto
  show ?case
  proof (cases "getGenomeOverlap (FeatureSegment_whole g) ci")
    case None
    with Cons.IH[OF gs] show ?thesis by simp
  next
    case (Some ov)
    then have "feature ov = g"
      using getGenomeOverlap_feature[OF Some] by (simp add: FeatureSegment_whole_def)
    with getFeatureStart_member[OF new g] obtain c where
      "convertFeatureSegmentToContextCoordinates ctx ov = Inr c"
      by (auto simp: convertFeatureSegmentToContextCoordinates_def bind_err_def)
    with Some Cons.IH[OF gs] show ?thesis by (simp add: bind_err_def)
  qed
qed

lemma convertGenomeIntervalToBases_safe:
  assumes new: "NavigationContext_new nm fs = Inr ctx"
    and safe: "lookupSafe ctx (chr ci)"
  shows "\<exists>cs. convertGenomeIntervalToBases ctx ci = Inr cs"
proof (cases "object_get (featuresForChr ctx) (chr ci)")
  case (Own gs)
  then have "featuresForChr ctx (chr ci) = Some gs"
    by (auto simp: object_get_def split: option.splits if_splits)
  then have "set gs \<subseteq> set fs"
    by (auto simp: NavigationContext_new_Inr(5)[OF new] groupBy_def split: if_splits)
  from convertGenome_loop_total[OF new this] Own show ?thesis
    by (simp add: convertGenomeIntervalToBases_def)
next
  case Inherited
  with safe show ?thesis by (simp add: lookupSafe_def)
next
  case Undefined
  then show ?thesis by (simp add: convertGenomeIntervalToBases_def)
qed

lemma convertGenomeIntervalToBases_inherited:
  "\<not> lookupSafe ctx (chr ci) \<Longrightarrow> convertGenomeIntervalToBases ctx ci = Inl TypeError"
  by (simp add: lookupSafe_def convertGenomeIntervalToBases_def)

lemma pairs_inner:
  "concat (map (case_option [] (\<lambda>l2. [g l2]) \<circ> h) c2) = map g (List.map_filter h c2)"
  by (induction c2) (auto simp: List.map_filter_simps split: option.splits)

lemma pairs_inner_None:
  "concat (map ((\<lambda>location2. []) \<circ> h) c2) = []"
  by (induction c2) auto

lemma placeInteraction_pairs_eq:
  "placeInteraction_pairs dm i (map h c1) (map h c2) =
     concat (map (\<lambda>a. map (\<lambda>b. PlacedInteraction_new i (baseSpanToXSpan dm a) (baseSpanToXSpan dm b))
                         (List.map_filter h c2)) (List.map_filter h c1))"
proof (induction c1)
  case Nil
  show ?case by (simp add: placeInteraction_pairs_def List.map_filter_simps)
next
  case (Cons c c1)
  show ?case
  proof (cases "h c")
    case None
    with Cons show ?thesis
      by (simp add: placeInteraction_pairs_def List.map_filter_simps pairs_inner_None)
  next
    case (Some a)
    with Cons show ?thesis
      by (simp add: placeInteraction_pairs_def List.map_filter_simps pairs_inner)
  qed
qed

lemma placeInteractions_loop_eq:
  assumes new: "NavigationContext_new nm fs = Inr (navContext viewRegion)"
  shows "\<forall>i\<in>set is. lookupSafe (navContext viewRegion) (chr (locus1 i))
                     \<and> lookupSafe (navContext viewRegion) (chr (locus2 i)) \<Longrightarrow>
         placeInteractions_loop dm (contextCoordinates viewRegion) (navContext viewRegion) is acc
           = Inr (acc @ concat (map (placedPairs dm viewRegion) is))"
proof (induction "is" arbitrary: acc)
  case Nil
  show ?case by simp
next
  case (Cons i rest)
  have s: "lookupSafe (navContext viewRegion) (chr (locus1 i))"
    "lookupSafe (navContext viewRegion) (chr (locus2 i))" using Cons.prems by simp_all
  from convertGenomeIntervalToBases_safe[OF new s(1)] convertGenomeIntervalToBases_safe[OF new s(2)]
  obtain c1 c2 where
    c: "convertGenomeIntervalToBases (navContext viewRegion) (locus1 i) = Inr c1"
       "convertGenomeIntervalToBases (navContext viewRegion) (locus2 i) = Inr c2" by blast
  have "placedPairs dm viewRegion i =
        placeInteraction_pairs dm i (map (\<lambda>l. getOverlap l (contextCoordinates viewRegion)) c1)
          (map (\<lambda>l. getOverlap l (contextCoordinates viewRegion)) c2)"
    by (simp add: placedPairs_def survivors_def c placeInteraction_pairs_eq)
  moreover have "\<forall>i\<in>set rest. lookupSafe (navContext viewRegion) (chr (locus1 i))
                     \<and> lookupSafe (navContext viewRegion) (chr (locus2 i))" using Cons.prems by simp
  ultimately show ?case using c Cons.IH by (simp add: bind_err_def)
qed

lemma PlacedInteraction_new_ordered:
  "start (xSpan1 (PlacedInteraction_new i s1 s2)) \<le> start (xSpan2 (PlacedInteraction_new i s1 s2))"
  by (simp add: PlacedInteraction_new_def)

lemma placedPairs_ordered:
  "p \<in> set (placedPairs dm viewRegion i) \<Longrightarrow> start (xSpan1 p) \<le> start (xSpan2 p)"
  by (auto simp: placedPairs_def PlacedInteraction_new_ordered)

lemma length_placedPairs:
  "length (placedPairs dm viewRegion i) =
     length (survivors viewRegion (locus1 i)) * length (survivors viewRegion (locus2 i))"
  by (simp add: placedPairs_def length_concat comp_def sum_list_triv)

text \<open>
  When every locus names a chromosome on which the lookup gives a list, \<open>placeInteractions\<close>
  returns, interaction by interaction, one placement for every pair of surviving clipped
  context intervals of the two loci, each with the start of \<open>xSpan1\<close> at most the start of
  \<open>xSpan2\<close>.
\<close>

lemma placeInteractions_safe:
  assumes "NavigationContext_new nm fs = Inr (navContext viewRegion)"
    and "\<forall>i\<in>set interactions. lookupSafe (navContext viewRegion) (chr (locus1 i))
                     \<and> lookupSafe (navContext viewRegion) (chr (locus2 i))"
  shows "\<exists>ps. placeInteractions newDrawModel interactions viewRegion width = Inr ps
          \<and> ps = concat (map (placedPairs (newDrawModel viewRegion width) viewRegion) interactions)
          \<and> (\<forall>p\<in>set ps. start (xSpan1 p) \<le> start (xSpan2 p))
          \<and> length ps = (\<Sum>i\<leftarrow>interactions.
                length (survivors viewRegion (locus1 i)) * length (survivors viewRegion (locus2 i)))"
proof -
  let ?ps = "concat (map (placedPairs (newDrawModel viewRegion width) viewRegion) interactions)"
  have 1: "placeInteractions newDrawModel interactions viewRegion width = Inr ?ps"
    by (simp add: placeInteractions_def Let_def placeInteractions_loop_eq[OF assms])
  have 2: "\<forall>p\<in>set ?ps. start (xSpan1 p) \<le> start (xSpan2 p)"
    by (auto dest: placedPairs_ordered)
  have 3: "length ?ps = (\<Sum>i\<leftarrow>interactions.
                length (survivors viewRegion (locus1 i)) * length (survivors viewRegion (locus2 i)))"
    by (simp add: length_concat comp_def length_placedPairs)
  from 1 2 3 show ?thesis by blast
qed

lemma placeFeatureSegments_loop_eq:
  "placeFeatureSegments_loop pf ppb segs acc =
     acc @ map (placeSegment pf ppb) (List.map_filter (\<lambda>s. FeatureSegment_getOverlap s (visiblePart pf)) segs)"
proof (induction segs arbitrary: acc)
  case Nil
  show ?case by (simp add: List.map_filter_simps)
next
  case (Cons s segs)
  show ?case
    by (cases "FeatureSegment_getOverlap s (visiblePart pf)")
       (simp_all add: Cons.IH List.map_filter_simps Let_def placeSegment_def)
qed

lemma placeFeatureSegments_eq:
  "placeFeatureSegments pf segs =
     map (placeSegment pf (pixelsPerBase pf))
       (List.map_filter (\<lambda>s. FeatureSegment_getOverlap s (visiblePart pf)) segs)"
  by (simp add: placeFeatureSegments_def placeFeatureSegments_loop_eq)

lemma segment_placeSegment: "segment (placeSegment pf ppb v) = v"
  by (simp add: placeSegment_def)

lemma FeatureSegment_getOverlap_nonempty:
  "FeatureSegment_getOverlap s v = Some ov \<Longrightarrow> 0 < FeatureSegment_getLength ov"
  by (auto simp: FeatureSegment_getOverlap_def getOverlap_def FeatureSegment_getLength_def Let_def
      split: if_splits option.splits)

lemma placeSegment_finite:
  shows "xSpan (placeSegment pf (Finite r) v) =
           \<lparr>start = Finite (start (featureXSpan pf) + real_of_int (relativeStart v - relativeStart (visiblePart pf)) * r),
            endp = Finite (start (featureXSpan pf) + real_of_int (relativeStart v - relativeStart (visiblePart pf)) * r
                          + real_of_int (FeatureSegment_getLength v) * r)\<rparr>"
  by (simp add: placeSegment_def)

lemma placeSegment_not_finite:
  "xSpan (placeSegment pf NotFinite v) = \<lparr>start = NotFinite, endp = NotFinite\<rparr>"
  by (simp add: placeSegment_def)

lemma in_map_filterD:
  "v \<in> set (List.map_filter h xs) \<Longrightarrow> \<exists>x\<in>set xs. h x = Some v"
  by (auto simp: List.map_filter_def)

text \<open>
  Claim C10.  When the context location of the placed feature has positive length, the
  pixels-per-base ratio is a finite number, every returned pixel span has finite bounds
  (in order, when the span of the parent is), and the returned segments are exactly the
  overlaps of the candidates with the visible part, the candidates without overlap being
  dropped.  When the length is zero the ratio and all returned spans are not finite
  numbers.
\<close>

theorem C10_placeFeatureSegments:
  "(0 < getLength (contextLocation pf) \<longrightarrow>
      (\<exists>r. pixelsPerBase pf = Finite r)
      \<and> (\<forall>p\<in>set (placeFeatureSegments pf segs).
            \<exists>a b. xSpan p = \<lparr>start = Finite a, endp = Finite b\<rparr>
                  \<and> (0 \<le> getLength (featureXSpan pf) \<longrightarrow> a \<le> b)))
   \<and> map segment (placeFeatureSegments pf segs) =
         List.map_filter (\<lambda>s. FeatureSegment_getOverlap s (visiblePart pf)) segs
   \<and> (getLength (contextLocation pf) = 0 \<longrightarrow>
         pixelsPerBase pf = NotFinite
         \<and> (\<forall>p\<in>set (placeFeatureSegments pf segs). xSpan p = \<lparr>start = NotFinite, endp = NotFinite\<rparr>))"
proof (intro conjI impI ballI)
  assume pos: "0 < getLength (contextLocation pf)"
  define r where "r = getLength (featureXSpan pf) / real_of_int (getLength (contextLocation pf))"
  have ppb: "pixelsPerBase pf = Finite r" using pos by (simp add: pixelsPerBase_def r_def)
  then show "\<exists>r. pixelsPerBase pf = Finite r" by blast
  fix p assume "p \<in> set (placeFeatureSegments pf segs)"
  then obtain v where v: "v \<in> set (List.map_filter (\<lambda>s. FeatureSegment_getOverlap s (visiblePart pf)) segs)"
    and p: "p = placeSegment pf (Finite r) v"
    by (auto simp: placeFeatureSegments_eq ppb)
  from in_map_filterD[OF v] obtain s where "FeatureSegment_getOverlap s (visiblePart pf) = Some v" by blast
  then have len: "0 < FeatureSegment_getLength v" by (rule FeatureSegment_getOverlap_nonempty)
  let ?a = "start (featureXSpan pf) + real_of_int (relativeStart v - relativeStart (visiblePart pf)) * r"
  let ?b = "?a + real_of_int (FeatureSegment_getLength v) * r"
  have x: "xSpan p = \<lparr>start = Finite ?a, endp = Finite ?b\<rparr>"
    unfolding p by (simp add: placeSegment_def)
  have "?a \<le> ?b" if "0 \<le> getLength (featureXSpan pf)"
  proof -
    have "0 \<le> r" using that pos by (simp add: r_def)
    with len have "0 \<le> real_of_int (FeatureSegment_getLength v) * r" by simp
    then show ?thesis by simp
  qed
  with x show "\<exists>a b. xSpan p = \<lparr>start = Finite a, endp = Finite b\<rparr>
                  \<and> (0 \<le> getLength (featureXSpan pf) \<longrightarrow> a \<le> b)" by blast
next
  show "map segment (placeFeatureSegments pf segs) =
         List.map_filter (\<lambda>s. FeatureSegment_getOverlap s (visiblePart pf)) segs"
    by (simp add: placeFeatureSegments_eq comp_def segment_placeSegment)
next
  assume z: "getLength (contextLocation pf) = 0"
  then show ppb: "pixelsPerBase pf = NotFinite" by (simp add: pixelsPerBase_def)
  fix p assume "p \<in> set (placeFeatureSegments pf segs)"
  then show "xSpan p = \<lparr>start = NotFinite, endp = NotFinite\<rparr>"
    by (auto simp: placeFeatureSegments_eq ppb placeSegment_not_finite)
qed

lemma gaplessExample_ctx:
  assumes "NavigationContext_new ''ctx'' gaplessExample = Inr ctx"
  shows "convertGenomeIntervalToBases ctx (locus1 exampleInteraction) = Inr [\<lparr>start = 22, endp = 28\<rparr>]"
    and "convertGenomeIntervalToBases ctx (locus2 exampleInteraction) = Inr [\<lparr>start = 2, endp = 8\<rparr>]"
    and "convertGenomeIntervalToBases ctx (locus1 inheritedInteraction) = Inl TypeError"
  using assms
  by (auto simp: NavigationContext_new_def gaplessExample_def makeGap_def exampleInteraction_def
      inheritedInteraction_def objectPrototypeMembers_def
      convertGenomeIntervalToBases_def object_get_def groupBy_def getGenomeOverlap_def
      FeatureSegment_whole_def
      FeatureSegment_getLocus_def ChromosomeInterval_getOverlap_def getOverlap_def Let_def
      convertFeatureSegmentToContextCoordinates_def getFeatureStart_def bind_err_def
      Feature_getLength_def getLength_def GAP_CHR_def)

lemma example_placeInteractions:
  assumes c: "NavigationContext_new ''ctx'' gaplessExample = Inr ctx"
  shows "placeInteractions exampleDrawModel [exampleInteraction]
          \<lparr>navContext = ctx, contextCoordinates = \<lparr>start = 0, endp = 30\<rparr>\<rparr> 30
        = Inr [\<lparr>interaction = exampleInteraction, xSpan1 = \<lparr>start = 2, endp = 8\<rparr>,
                xSpan2 = \<lparr>start = 22, endp = 28\<rparr>\<rparr>]"
    and "placeInteractions exampleDrawModel [exampleInteraction, inheritedInteraction]
          \<lparr>navContext = ctx, contextCoordinates = \<lparr>start = 0, endp = 30\<rparr>\<rparr> 30
        = Inl TypeError"
  by (simp_all add: placeInteractions_def gaplessExample_ctx[OF c] bind_err_def
      placeInteraction_pairs_def getOverlap_def exampleDrawModel_def PlacedInteraction_new_def)

text \<open>
  Claim C8.  The claim asks for one placement for every pair of surviving clipped context
  intervals.  On the interaction between chr2:52-58 and chr1:2-8 alone, \<open>placeInteractions\<close>
  returns the one placement, spans ordered.  With a second interaction whose first locus
  names the chromosome \<open>constructor\<close>, which the context does not have, the lookup reads
  the member that the object inherits, the loop over it throws a \<open>TypeError\<close>, and no
  placement is returned, not even the one of the first interaction.
\<close>

theorem C8_inherited_chromosome_throws:
  "bind_err (NavigationContext_new ''ctx'' gaplessExample)
     (\<lambda>ctx. placeInteractions exampleDrawModel [exampleInteraction]
              \<lparr>navContext = ctx, contextCoordinates = \<lparr>start = 0, endp = 30\<rparr>\<rparr> 30)
     = Inr [\<lparr>interaction = exampleInteraction, xSpan1 = \<lparr>start = 2, endp = 8\<rparr>,
             xSpan2 = \<lparr>start = 22, endp = 28\<rparr>\<rparr>]
   \<and> bind_err (NavigationContext_new ''ctx'' gaplessExample)
     (\<lambda>ctx. placeInteractions exampleDrawModel [exampleInteraction, inheritedInteraction]
              \<lparr>navContext = ctx, contextCoordinates = \<lparr>start = 0, endp = 30\<rparr>\<rparr> 30)
     = Inl TypeError"
proof -
  from gaplessExample_new obtain ctx where c: "NavigationContext_new ''ctx'' gaplessExample = Inr ctx" ..
  show ?thesis by (simp add: c bind_err_def example_placeInteractions[OF c])
qed

lemma example_placeFeatureSegments:
  "placeFeatureSegments examplePlaced exampleSegments =
     [\<lparr>segment = \<lparr>feature = placedFeature examplePlaced, relativeStart = 30, relativeEnd = 50\<rparr>,
       xSpan = \<lparr>start = Finite 20, endp = Finite 60\<rparr>\<rparr>,
      \<lparr>segment = \<lparr>feature = placedFeature examplePlaced, relativeStart = 50, relativeEnd = 60\<rparr>,
       xSpan = \<lparr>start = Finite 60, endp = Finite 80\<rparr>\<rparr>]"
  by (simp add: placeFeatureSegments_def pixelsPerBase_def examplePlaced_def exampleSegments_def
      FeatureSegment_getOverlap_def getOverlap_def getLength_def FeatureSegment_getLength_def)

theorem C10_placeFeatureSegments_witness:
  "0 < getLength (contextLocation examplePlaced) \<and> 0 \<le> getLength (featureXSpan examplePlaced)
   \<and> placeFeatureSegments examplePlaced exampleSegments \<noteq> []
   \<and> (\<exists>a b. xSpan (hd (placeFeatureSegments examplePlaced exampleSegments))
                 = \<lparr>start = Finite a, endp = Finite b\<rparr> \<and> a \<le> b)
   \<and> getLength (contextLocation (examplePlaced\<lparr>contextLocation := \<lparr>start = 120, endp = 120\<rparr>\<rparr>)) = 0
   \<and> placeFeatureSegments (examplePlaced\<lparr>contextLocation := \<lparr>start = 120, endp = 120\<rparr>\<rparr>) exampleSegments \<noteq> []
   \<and> xSpan (hd (placeFeatureSegments (examplePlaced\<lparr>contextLocation := \<lparr>start = 120, endp = 120\<rparr>\<rparr>)
                     exampleSegments))
        = \<lparr>start = NotFinite, endp = NotFinite\<rparr>"
proof -
  let ?z = "examplePlaced\<lparr>contextLocation := \<lparr>start = 120, endp = 120\<rparr>\<rparr>"
  have p: "0 < getLength (contextLocation examplePlaced)" "0 \<le> getLength (featureXSpan examplePlaced)"
    by (simp_all add: examplePlaced_def getLength_def)
  have n: "placeFeatureSegments examplePlaced exampleSegments \<noteq> []"
    by (simp add: example_placeFeatureSegments)
  then have hn: "hd (placeFeatureSegments examplePlaced exampleSegments)
                   \<in> set (placeFeatureSegments examplePlaced exampleSegments)" by (rule hd_in_set)
  have z: "getLength (contextLocation ?z) = 0" by (simp add: getLength_def)
  have nz: "placeFeatureSegments ?z exampleSegments \<noteq> []"
    by (simp add: placeFeatureSegments_def pixelsPerBase_def examplePlaced_def exampleSegments_def
      FeatureSegment_getOverlap_def getOverlap_def getLength_def FeatureSegment_getLength_def)
  then have hz: "hd (placeFeatureSegments ?z exampleSegments) \<in> set (placeFeatureSegments ?z exampleSegments)"
    by (rule hd_in_set)
  from C10_placeFeatureSegments[of examplePlaced exampleSegments] p hn
  have a: "\<exists>a b. xSpan (hd (placeFeatureSegments examplePlaced exampleSegments))
                 = \<lparr>start = Finite a, endp = Finite b\<rparr> \<and> a \<le> b" by blast
  from C10_placeFeatureSegments[of ?z exampleSegments] z hz
  have b: "xSpan (hd (placeFeatureSegments ?z exampleSegments)) = \<lparr>start = NotFinite, endp = NotFinite\<rparr>"
    by blast
  from p n a z nz b show ?thesis by blast
qed

section \<open>Features in an interval\<close>

lemma zeroGap_eval:
  "bind_err (NavigationContext_new ''ctx'' zeroGapExample) (\<lambda>ctx. getFeaturesInInterval ctx 5 15 True)
     = Inr [\<lparr>feature = zeroGapExample ! 0, relativeStart = 5, relativeEnd = 10\<rparr>]"
  by (simp add: NavigationContext_new_def zeroGapExample_def makeGap_def bind_err_def
      getFeaturesInInterval_def getFeatureStart_def Feature_getLength_def getLength_def
      getOverlap_def isGapFeature_def GAP_CHR_def Let_def)

lemma zeroGap_spec:
  "overlappingSegments \<lparr>start = 5, endp = 15\<rparr> True 0 zeroGapExample
     = [\<lparr>feature = zeroGapExample ! 0, relativeStart = 5, relativeEnd = 10\<rparr>,
        \<lparr>feature = zeroGapExample ! 2, relativeStart = 0, relativeEnd = 5\<rparr>]"
  by (simp add: zeroGapExample_def makeGap_def Feature_getLength_def getLength_def
      getOverlap_def isGapFeature_def GAP_CHR_def Let_def)

lemma overlappingSegments_past:
  "endp q \<le> t \<Longrightarrow> \<forall>f\<in>set fs. 0 \<le> Feature_getLength f \<Longrightarrow> overlappingSegments q ig t fs = []"
proof (induction fs arbitrary: t)
  case Nil
  show ?case by simp
next
  case (Cons f fs)
  have "getOverlap \<lparr>start = t, endp = t + Feature_getLength f\<rparr> q = None"
    using Cons.prems by (simp add: getOverlap_def Let_def)
  moreover have "overlappingSegments q ig (t + Feature_getLength f) fs = []"
    using Cons.prems by (intro Cons.IH) auto
  ultimately show ?case by simp
qed

lemma getFeaturesInInterval_loop_eq:
  assumes starts: "\<forall>j<length rest. getFeatureStart ctx (rest ! j) = Inr (starts_from t rest ! j)"
    and pos: "\<forall>f\<in>set rest. 0 \<le> Feature_getLength f
                \<and> ((ig \<or> \<not> isGapFeature f) \<longrightarrow> 0 < Feature_getLength f)"
    and inv: "acc \<noteq> [] \<longrightarrow> start q < t"
  shows "getFeaturesInInterval_loop ctx q ig rest acc = Inr (acc @ overlappingSegments q ig t rest)"
  using assms
proof (induction rest arbitrary: t acc)
  case Nil
  show ?case by simp
next
  case (Cons f fs)
  let ?t' = "t + Feature_getLength f"
  have st: "\<forall>j<length fs. getFeatureStart ctx (fs ! j) = Inr (starts_from ?t' fs ! j)"
  proof (intro allI impI)
    fix j assume "j < length fs"
    then have "Suc j < length (f # fs)" by simp
    from Cons.prems(1)[rule_format, OF this] show "getFeatureStart ctx (fs ! j) = Inr (starts_from ?t' fs ! j)"
      by simp
  qed
  have s0: "getFeatureStart ctx f = Inr t" using Cons.prems(1)[rule_format, of 0] by simp
  have pos': "\<forall>g\<in>set fs. 0 \<le> Feature_getLength g
                \<and> ((ig \<or> \<not> isGapFeature g) \<longrightarrow> 0 < Feature_getLength g)"
    using Cons.prems(2) by simp
  have len0: "0 \<le> Feature_getLength f" using Cons.prems(2) by simp
  show ?case
  proof (cases "\<not> ig \<and> isGapFeature f")
    case True
    have "acc \<noteq> [] \<longrightarrow> start q < ?t'" using Cons.prems(3) len0 by auto
    from Cons.IH[OF st pos' this] True show ?thesis by simp
  next
    case False
    then have len: "0 < Feature_getLength f" using Cons.prems(2) by auto
    have step: "getFeaturesInInterval_loop ctx q ig (f # fs) acc =
        (case getOverlap \<lparr>start = t, endp = ?t'\<rparr> q of
           Some overlap \<Rightarrow>
             getFeaturesInInterval_loop ctx q ig fs
               (acc @ [\<lparr>feature = f, relativeStart = start overlap - t, relativeEnd = endp overlap - t\<rparr>])
         | None \<Rightarrow> if length acc > 0 then Inr acc else getFeaturesInInterval_loop ctx q ig fs acc)"
      using False s0 by (auto simp: bind_err_def)
    have spec: "overlappingSegments q ig t (f # fs) =
        (case getOverlap \<lparr>start = t, endp = ?t'\<rparr> q of
           None \<Rightarrow> []
         | Some ov \<Rightarrow> [\<lparr>feature = f, relativeStart = start ov - t, relativeEnd = endp ov - t\<rparr>])
        @ overlappingSegments q ig ?t' fs"
      using False by auto
    show ?thesis
    proof (cases "getOverlap \<lparr>start = t, endp = ?t'\<rparr> q")
      case (Some ov)
      then have "start q < ?t'" by (auto simp: getOverlap_def Let_def split: if_splits)
      then have "acc @ [\<lparr>feature = f, relativeStart = start ov - t, relativeEnd = endp ov - t\<rparr>] \<noteq> []
                 \<longrightarrow> start q < ?t'" by simp
      from Cons.IH[OF st pos' this] show ?thesis unfolding step spec Some by simp
    next
      case None
      show ?thesis
      proof (cases "acc = []")
        case True
        then have "acc \<noteq> [] \<longrightarrow> start q < ?t'" by simp
        from Cons.IH[OF st pos' this] True show ?thesis unfolding step spec None by simp
      next
        case nonempty: False
        with Cons.prems(3) have "start q < t" by simp
        with None len have "endp q \<le> t" by (auto simp: getOverlap_def Let_def split: if_splits)
        then have "endp q \<le> ?t'" using len by simp
        then have "overlappingSegments q ig ?t' fs = []"
          using pos' by (intro overlappingSegments_past) auto
        with nonempty show ?thesis unfolding step spec None by simp
      qed
    qed
  qed
qed

lemma getFeaturesInInterval_positive:
  assumes new: "NavigationContext_new nm fs = Inr ctx"
    and pos: "\<forall>f\<in>set fs. 0 < Feature_getLength f"
  shows "getFeaturesInInterval ctx queryStart queryEnd includeGaps =
           Inr (overlappingSegments \<lparr>start = queryStart, endp = queryEnd\<rparr> includeGaps 0 fs)"
proof -
  have "\<forall>j<length fs. getFeatureStart ctx (fs ! j) = Inr (starts_from 0 fs ! j)"
    using getFeatureStart_nth[OF new] NavigationContext_new_Inr(3)[OF new] by simp
  moreover have "\<forall>f\<in>set fs. 0 \<le> Feature_getLength f
                \<and> ((includeGaps \<or> \<not> isGapFeature f) \<longrightarrow> 0 < Feature_getLength f)"
    using pos by auto
  ultimately show ?thesis
    using getFeaturesInInterval_loop_eq[of fs ctx 0 includeGaps "[]" "\<lparr>start = queryStart, endp = queryEnd\<rparr>"]
      NavigationContext_new_Inr(2)[OF new]
    by (simp add: getFeaturesInInterval_def)
qed

text \<open>
  Claim C5.  The claim holds when every feature has positive length
  (\<open>getFeaturesInInterval_positive\<close>).  The early termination is not safe in general: on
  the context [10bp feature, gap of length 0, 10bp feature] and the query [5, 15) the loop
  stops at the gap, which overlaps nothing, and returns only the segment of the first
  feature, although the third feature, which spans [10, 20), overlaps the query.
\<close>

theorem C5_zero_length_gap_drops_feature:
  "bind_err (NavigationContext_new ''ctx'' zeroGapExample) (\<lambda>ctx. getFeaturesInInterval ctx 5 15 True)
     = Inr [\<lparr>feature = zeroGapExample ! 0, relativeStart = 5, relativeEnd = 10\<rparr>]
   \<and> overlappingSegments \<lparr>start = 5, endp = 15\<rparr> True 0 zeroGapExample
     = [\<lparr>feature = zeroGapExample ! 0, relativeStart = 5, relativeEnd = 10\<rparr>,
        \<lparr>feature = zeroGapExample ! 2, relativeStart = 0, relativeEnd = 5\<rparr>]"
  using zeroGap_eval zeroGap_spec by simp

section \<open>Parsing\<close>

lemma match_here_Many1:
  "xs \<noteq> [] \<Longrightarrow> list_all p xs \<Longrightarrow> match_here r rest \<Longrightarrow> match_here (Many1 p # r) (xs @ rest)"
proof (induction xs)
  case Nil
  then show ?case by simp
next
  case (Cons x xs)
  then show ?case by (cases xs) auto
qed

lemma match_here_Many1D:
  "match_here (Many1 p # r) y \<Longrightarrow>
   \<exists>xs rest. y = xs @ rest \<and> xs \<noteq> [] \<and> list_all p xs \<and> match_here r rest"
proof (induction y)
  case Nil
  then show ?case by simp
next
  case (Cons x ys)
  then have px: "p x" and d: "match_here (Many1 p # r) ys \<or> match_here r ys" by simp_all
  from d show ?case
  proof
    assume "match_here (Many1 p # r) ys"
    from Cons.IH[OF this] obtain xs rest where
      "ys = xs @ rest" "xs \<noteq> []" "list_all p xs" "match_here r rest" by blast
    then have "x # ys = (x # xs) @ rest \<and> x # xs \<noteq> [] \<and> list_all p (x # xs) \<and> match_here r rest"
      using px by simp
    then show ?thesis by blast
  next
    assume "match_here r ys"
    then have "x # ys = [x] @ ys \<and> [x] \<noteq> [] \<and> list_all p [x] \<and> match_here r ys"
      using px by simp
    then show ?thesis by blast
  qed
qed

lemma match_here_LitD:
  "match_here (Lit c # r) y \<Longrightarrow> \<exists>rest. y = c # rest \<and> match_here r rest"
  by (cases y) auto

lemma match_here_search: "match_here r s \<Longrightarrow> regex_search r s"
  by (cases s) auto

lemma regex_search_append: "match_here r y \<Longrightarrow> regex_search r (pre @ y)"
  by (induction pre) (auto simp: match_here_search)

lemma regex_searchD: "regex_search r s \<Longrightarrow> \<exists>pre y. s = pre @ y \<and> match_here r y"
proof (induction s)
  case Nil
  then show ?case by simp
next
  case (Cons x xs)
  then have "match_here r (x # xs) \<or> regex_search r xs" by simp
  then show ?case
  proof
    assume "match_here r (x # xs)"
    then have "x # xs = [] @ (x # xs) \<and> match_here r (x # xs)" by simp
    then show ?thesis by blast
  next
    assume "regex_search r xs"
    from Cons.IH[OF this] obtain pre y where "xs = pre @ y" "match_here r y" by blast
    then have "x # xs = (x # pre) @ y \<and> match_here r y" by simp
    then show ?thesis by blast
  qed
qed

lemma match_here_intervalRegex:
  assumes "c \<noteq> []" "list_all isWordOrColon c" "ds1 \<noteq> []" "list_all isDigit ds1"
    "ds2 \<noteq> []" "list_all isDigit ds2"
  shows "match_here intervalRegex (c @ CHR '':'' # ds1 @ CHR ''-'' # ds2 @ post)"
proof -
  have 5: "match_here [Many1 isDigit] (ds2 @ post)"
    using assms(5,6) by (intro match_here_Many1) simp_all
  then have 4: "match_here [Lit CHR ''-'', Many1 isDigit] (CHR ''-'' # ds2 @ post)" by simp
  have 3: "match_here [Many1 isDigit, Lit CHR ''-'', Many1 isDigit] (ds1 @ CHR ''-'' # ds2 @ post)"
    using assms(3,4) 4 by (intro match_here_Many1)
  then have 2: "match_here [Lit CHR '':'', Many1 isDigit, Lit CHR ''-'', Many1 isDigit]
                  (CHR '':'' # ds1 @ CHR ''-'' # ds2 @ post)" by simp
  show ?thesis
    unfolding intervalRegex_def using assms(1,2) 2 by (intro match_here_Many1)
qed

lemma regex_search_iff: "regex_search intervalRegex s \<longleftrightarrow> containsLocus s"
proof
  assume "regex_search intervalRegex s"
  from regex_searchD[OF this] obtain pre y where s: "s = pre @ y" and m: "match_here intervalRegex y"
    by blast
  from match_here_Many1D[OF m[unfolded intervalRegex_def]] obtain c y1 where
    1: "y = c @ y1" "c \<noteq> []" "list_all isWordOrColon c"
       "match_here [Lit CHR '':'', Many1 isDigit, Lit CHR ''-'', Many1 isDigit] y1" by blast
  from match_here_LitD[OF 1(4)] obtain y2 where
    2: "y1 = CHR '':'' # y2" "match_here [Many1 isDigit, Lit CHR ''-'', Many1 isDigit] y2" by blast
  from match_here_Many1D[OF 2(2)] obtain ds1 y3 where
    3: "y2 = ds1 @ y3" "ds1 \<noteq> []" "list_all isDigit ds1"
       "match_here [Lit CHR ''-'', Many1 isDigit] y3" by blast
  from match_here_LitD[OF 3(4)] obtain y4 where
    4: "y3 = CHR ''-'' # y4" "match_here [Many1 isDigit] y4" by blast
  from match_here_Many1D[OF 4(2)] obtain ds2 post where
    5: "y4 = ds2 @ post" "ds2 \<noteq> []" "list_all isDigit ds2" by blast
  have "s = pre @ c @ '':'' @ ds1 @ ''-'' @ ds2 @ post"
    by (simp add: s 1(1) 2(1) 3(1) 4(1) 5(1))
  with 1(2,3) 3(2,3) 5(2,3) show "containsLocus s" unfolding containsLocus_def by blast
next
  assume "containsLocus s"
  then obtain pre c ds1 ds2 post where
    s: "s = pre @ c @ '':'' @ ds1 @ ''-'' @ ds2 @ post"
    and a: "c \<noteq> []" "list_all isWordOrColon c" "ds1 \<noteq> []" "list_all isDigit ds1"
      "ds2 \<noteq> []" "list_all isDigit ds2"
    unfolding containsLocus_def by blast
  from match_here_intervalRegex[OF a, of post]
  have "regex_search intervalRegex (pre @ (c @ CHR '':'' # ds1 @ CHR ''-'' # ds2 @ post))"
    by (rule regex_search_append)
  then show "regex_search intervalRegex s" by (simp add: s)
qed

lemma locusText_containsLocus:
  assumes "c \<noteq> []" "list_all isWordOrColon c" "ds1 \<noteq> []" "list_all isDigit ds1"
    "ds2 \<noteq> []" "list_all isDigit ds2"
  shows "containsLocus (locusText c ds1 ds2)"
proof -
  have "locusText c ds1 ds2 = [] @ c @ '':'' @ ds1 @ ''-'' @ ds2 @ []" by (simp add: locusText_def)
  with assms show ?thesis unfolding containsLocus_def by blast
qed

lemma isDigit_not_sep: "isDigit x \<Longrightarrow> x \<noteq> CHR '':'' \<and> x \<noteq> CHR ''-''"
  by (auto simp: isDigit_def)

lemma takeWhile_sep: "\<forall>y\<in>set x. P y \<Longrightarrow> \<not> P z \<Longrightarrow> takeWhile P (x @ z # w) = x"
  by (induction x) auto

lemma dropWhile_sep: "\<forall>y\<in>set x. P y \<Longrightarrow> \<not> P z \<Longrightarrow> dropWhile P (x @ z # w) = z # w"
  by (induction x) auto

lemma ChromosomeInterval_parse_locusText:
  assumes "c \<noteq> []" "ds1 \<noteq> []" "list_all isDigit ds1" "ds2 \<noteq> []" "list_all isDigit ds2"
    and "parseInt ds1 < parseInt ds2"
  shows "ChromosomeInterval_parse (locusText c ds1 ds2)
           = Inr \<lparr>start = parseInt ds1, endp = parseInt ds2, chr = c\<rparr>"
proof -
  let ?s = "locusText c ds1 ds2"
  let ?x = "rev ds2 @ CHR ''-'' # rev ds1"
  have d1: "\<forall>x\<in>set ds1. x \<noteq> CHR '':'' \<and> x \<noteq> CHR ''-''"
    and d2: "\<forall>x\<in>set ds2. x \<noteq> CHR '':'' \<and> x \<noteq> CHR ''-''"
    using assms(3,5) by (auto simp: list_all_iff dest: isDigit_not_sep)
  have r: "rev ?s = ?x @ CHR '':'' # rev c" by (simp add: locusText_def)
  have ax: "\<forall>y\<in>set ?x. y \<noteq> CHR '':''" using d1 d2 by auto
  have tw: "takeWhile (\<lambda>c. c \<noteq> CHR '':'') (rev ?s) = ?x"
    unfolding r by (rule takeWhile_sep) (use ax in simp_all)
  have dw: "dropWhile (\<lambda>c. c \<noteq> CHR '':'') (rev ?s) = CHR '':'' # rev c"
    unfolding r by (rule dropWhile_sep) (use ax in simp_all)
  have range: "rev ?x = ds1 @ CHR ''-'' # ds2" by simp
  have ts: "takeWhile (\<lambda>c. c \<noteq> CHR ''-'') (ds1 @ CHR ''-'' # ds2) = ds1"
    by (rule takeWhile_sep) (use d1 in simp_all)
  have ds: "dropWhile (\<lambda>c. c \<noteq> CHR ''-'') (ds1 @ CHR ''-'' # ds2) = CHR ''-'' # ds2"
    by (rule dropWhile_sep) (use d1 in simp_all)
  have col: "CHR '':'' \<in> set ?s" by (simp add: locusText_def)
  show ?thesis
    unfolding ChromosomeInterval_parse_def Let_def tw dw range ts ds
    using assms col by simp
qed

lemma parse_by_name:
  assumes new: "NavigationContext_new nm fs = Inr ctx"
    and nomatch: "\<not> containsLocus s"
  shows "find_first (\<lambda>f. name f = s) fs = None \<Longrightarrow> parse ctx s = Inl RangeError"
    and "i < length fs \<Longrightarrow> find_first (\<lambda>f. name f = s) fs = Some (fs ! i) \<Longrightarrow>
         parse ctx s = Inr \<lparr>start = sortedFeatureStarts ctx ! i,
                            endp = sortedFeatureStarts ctx ! i + Feature_getLength (fs ! i)\<rparr>"
  using nomatch NavigationContext_new_Inr(2)[OF new] getFeatureStart_nth[OF new, of i]
  by (simp_all add: parse_def regex_search_iff convertFeatureSegmentToContextCoordinates_def
      bind_err_def FeatureSegment_whole_def)

lemma parse_by_locus:
  assumes new: "NavigationContext_new nm fs = Inr ctx"
    and m: "containsLocus s"
  shows "ChromosomeInterval_parse s = Inl e \<Longrightarrow> parse ctx s = Inl e"
    and "ChromosomeInterval_parse s = Inr l \<Longrightarrow> lookupSafe ctx (chr l) \<Longrightarrow>
         \<exists>cs. convertGenomeIntervalToBases ctx l = Inr cs
              \<and> parse ctx s = (case cs of [] \<Rightarrow> Inl RangeError | x # _ \<Rightarrow> Inr x)"
proof -
  show "ChromosomeInterval_parse s = Inl e \<Longrightarrow> parse ctx s = Inl e"
    using m by (simp add: parse_def regex_search_iff bind_err_def)
  assume l: "ChromosomeInterval_parse s = Inr l" and safe: "lookupSafe ctx (chr l)"
  from convertGenomeIntervalToBases_safe[OF new safe] obtain cs where
    cs: "convertGenomeIntervalToBases ctx l = Inr cs" by blast
  then have "parse ctx s = (case cs of [] \<Rightarrow> Inl RangeError | x # _ \<Rightarrow> Inr x)"
    using m l by (simp add: parse_def regex_search_iff bind_err_def)
  with cs show "\<exists>cs. convertGenomeIntervalToBases ctx l = Inr cs
              \<and> parse ctx s = (case cs of [] \<Rightarrow> Inl RangeError | x # _ \<Rightarrow> Inr x)" by blast
qed

lemma not_isLocusText_example: "\<not> isLocusText ''chr1:100-200_up''"
proof
  assume "isLocusText ''chr1:100-200_up''"
  then obtain c ds1 ds2 where s: "''chr1:100-200_up'' = locusText c ds1 ds2"
    and d: "ds2 \<noteq> []" "list_all isDigit ds2" by (auto simp: isLocusText_def)
  from d(1) have "last (locusText c ds1 ds2) = last ds2" by (simp add: locusText_def)
  with s have "last ds2 = CHR ''p''" by (metis last.simps last_ConsR list.distinct(1) last_snoc
        append_Cons append_Nil last_appendR)
  moreover have "isDigit (last ds2)" using d by (simp add: list_all_iff)
  ultimately show False by (simp add: isDigit_def)
qed

lemma regex_examples:
  "regex_search intervalRegex ''chr1:100-200_up''"
  "\<not> regex_search intervalRegex ''chr1''"
  "\<not> regex_search intervalRegex ''NoSuchFeature''"
  "regex_search intervalRegex ''constructor:0-10''"
  by (simp_all add: intervalRegex_def isWordOrColon_def isWord_def isDigit_def)

lemma ChromosomeInterval_parse_example:
  "ChromosomeInterval_parse ''chr1:100-200_up'' = Inl ParseError"
  "ChromosomeInterval_parse ''chr1:200-100'' = Inl ParseError"
  "ChromosomeInterval_parse ''constructor:0-10'' = Inr \<lparr>start = 0, endp = 10, chr = ''constructor''\<rparr>"
  by (simp_all add: ChromosomeInterval_parse_def parseInt_def isDigit_def Let_def)

text \<open>
  Claim C6, as stated, fails: the string \<open>chr1:100-200_up\<close> is not of the form
  \<open>chr:start-end\<close> and is the exact name of a feature of the context, but \<open>parse\<close> does
  not return the span of that feature: the regular expression, which has no anchors,
  finds a locus in the string and \<open>parse\<close> takes the locus branch.
\<close>

theorem C6_parse_counterexample:
  "bind_err (NavigationContext_new ''ctx'' namedExample) (\<lambda>ctx. parse ctx ''chr1:100-200_up'') = Inl ParseError
   \<and> \<not> isLocusText ''chr1:100-200_up''
   \<and> find_first (\<lambda>f. name f = ''chr1:100-200_up'') namedExample = Some (namedExample ! 1)"
proof (intro conjI)
  show "bind_err (NavigationContext_new ''ctx'' namedExample) (\<lambda>ctx. parse ctx ''chr1:100-200_up'') = Inl ParseError"
    unfolding parse_def if_P[OF regex_examples(1)] ChromosomeInterval_parse_example
    by (simp add: bind_err_def NavigationContext_new_def namedExample_def)
  show "\<not> isLocusText ''chr1:100-200_up''" by (rule not_isLocusText_example)
  show "find_first (\<lambda>f. name f = ''chr1:100-200_up'') namedExample = Some (namedExample ! 1)"
    by (simp add: namedExample_def)
qed

text \<open>
  Claim C6, amended.  In a context built by the constructor: on a string of the form
  \<open>chr:start-end\<close> with start < end, whose chromosome is one of the context or is not the
  name of a member of \<open>Object.prototype\<close>, \<open>parse\<close> returns the first context interval of
  the genomic lookup of that locus and raises a \<open>RangeError\<close> when the lookup yields none.
  The same branch is taken on every string that contains a locus anywhere: an error of
  \<open>ChromosomeInterval.parse\<close> is passed on, and otherwise the locus it returns is looked
  up in the same way.  On a string that contains no locus, \<open>parse\<close> returns the full
  context span of the first feature whose name equals the string, and raises a
  \<open>RangeError\<close> when no feature has that name.
\<close>

theorem C6_parse:
  assumes new: "NavigationContext_new nm fs = Inr ctx"
  shows
  "(c \<noteq> [] \<and> list_all isWordOrColon c \<and> ds1 \<noteq> [] \<and> list_all isDigit ds1
      \<and> ds2 \<noteq> [] \<and> list_all isDigit ds2 \<and> parseInt ds1 < parseInt ds2 \<and> lookupSafe ctx c \<longrightarrow>
      (\<exists>cs. convertGenomeIntervalToBases ctx \<lparr>start = parseInt ds1, endp = parseInt ds2, chr = c\<rparr> = Inr cs
         \<and> parse ctx (locusText c ds1 ds2) = (case cs of [] \<Rightarrow> Inl RangeError | x # _ \<Rightarrow> Inr x)))
   \<and> (containsLocus s \<longrightarrow>
        (\<forall>e. ChromosomeInterval_parse s = Inl e \<longrightarrow> parse ctx s = Inl e)
        \<and> (\<forall>l. ChromosomeInterval_parse s = Inr l \<and> lookupSafe ctx (chr l) \<longrightarrow>
             (\<exists>cs. convertGenomeIntervalToBases ctx l = Inr cs
                \<and> parse ctx s = (case cs of [] \<Rightarrow> Inl RangeError | x # _ \<Rightarrow> Inr x))))
   \<and> (\<not> containsLocus s \<longrightarrow>
        (find_first (\<lambda>f. name f = s) fs = None \<longrightarrow> parse ctx s = Inl RangeError)
        \<and> (\<forall>i<length fs. find_first (\<lambda>f. name f = s) fs = Some (fs ! i) \<longrightarrow>
              parse ctx s = Inr \<lparr>start = sortedFeatureStarts ctx ! i,
                                 endp = sortedFeatureStarts ctx ! i + Feature_getLength (fs ! i)\<rparr>))"
proof (intro conjI impI allI)
  assume a: "c \<noteq> [] \<and> list_all isWordOrColon c \<and> ds1 \<noteq> [] \<and> list_all isDigit ds1
      \<and> ds2 \<noteq> [] \<and> list_all isDigit ds2 \<and> parseInt ds1 < parseInt ds2 \<and> lookupSafe ctx c"
  then have m: "containsLocus (locusText c ds1 ds2)"
    by (intro locusText_containsLocus) simp_all
  have p: "ChromosomeInterval_parse (locusText c ds1 ds2)
           = Inr \<lparr>start = parseInt ds1, endp = parseInt ds2, chr = c\<rparr>"
    using a by (intro ChromosomeInterval_parse_locusText) simp_all
  have s: "lookupSafe ctx (chr \<lparr>start = parseInt ds1, endp = parseInt ds2, chr = c\<rparr>)"
    using a by simp
  from parse_by_locus(2)[OF new m p s]
  show "\<exists>cs. convertGenomeIntervalToBases ctx \<lparr>start = parseInt ds1, endp = parseInt ds2, chr = c\<rparr> = Inr cs
         \<and> parse ctx (locusText c ds1 ds2) = (case cs of [] \<Rightarrow> Inl RangeError | x # _ \<Rightarrow> Inr x)" .
next
  fix e assume "containsLocus s" "ChromosomeInterval_parse s = Inl e"
  then show "parse ctx s = Inl e" by (rule parse_by_locus(1)[OF new])
next
  fix l assume "containsLocus s" "ChromosomeInterval_parse s = Inr l \<and> lookupSafe ctx (chr l)"
  then show "\<exists>cs. convertGenomeIntervalToBases ctx l = Inr cs
                \<and> parse ctx s = (case cs of [] \<Rightarrow> Inl RangeError | x # _ \<Rightarrow> Inr x)"
    using parse_by_locus(2)[OF new] by blast
next
  assume "\<not> containsLocus s" "find_first (\<lambda>f. name f = s) fs = None"
  then show "parse ctx s = Inl RangeError" by (rule parse_by_name(1)[OF new])
next
  fix i assume "\<not> containsLocus s" "i < length fs"
    "find_first (\<lambda>f. name f = s) fs = Some (fs ! i)"
  then show "parse ctx s = Inr \<lparr>start = sortedFeatureStarts ctx ! i,
                                 endp = sortedFeatureStarts ctx ! i + Feature_getLength (fs ! i)\<rparr>"
    by (rule parse_by_name(2)[OF new])
qed

lemma namedExample_new: "\<exists>ctx. NavigationContext_new ''ctx'' namedExample = Inr ctx"
  by (simp add: NavigationContext_new_def namedExample_def)

lemma namedExample_lookup:
  assumes "NavigationContext_new ''ctx'' namedExample = Inr ctx"
  shows "convertGenomeIntervalToBases ctx \<lparr>start = 100, endp = 200, chr = ''chr1''\<rparr>
           = Inr [\<lparr>start = 100, endp = 200\<rparr>]"
    and "lookupSafe ctx ''chr1''"
    and "\<not> lookupSafe ctx ''constructor''"
  using assms
  by (auto simp: NavigationContext_new_def namedExample_def lookupSafe_def objectPrototypeMembers_def
      convertGenomeIntervalToBases_def object_get_def groupBy_def getGenomeOverlap_def
      FeatureSegment_whole_def
      FeatureSegment_getLocus_def ChromosomeInterval_getOverlap_def getOverlap_def Let_def
      convertFeatureSegmentToContextCoordinates_def getFeatureStart_def bind_err_def
      Feature_getLength_def getLength_def)

text \<open>
  The case that the statement above leaves out: the locus \<open>constructor:0-10\<close> names a
  chromosome that the context does not have and \<open>Object.prototype\<close> does; the lookup
  throws a \<open>TypeError\<close>.
\<close>

lemma parse_inherited_example:
  assumes c: "NavigationContext_new ''ctx'' namedExample = Inr ctx"
  shows "parse ctx ''constructor:0-10'' = Inl TypeError"
proof -
  have "convertGenomeIntervalToBases ctx \<lparr>start = 0, endp = 10, chr = ''constructor''\<rparr> = Inl TypeError"
    using namedExample_lookup(3)[OF c] by (intro convertGenomeIntervalToBases_inherited) simp
  then show ?thesis
    unfolding parse_def if_P[OF regex_examples(4)] ChromosomeInterval_parse_example
    by (simp add: bind_err_def)
qed

theorem C6_parse_witness:
  "\<exists>ctx. NavigationContext_new ''ctx'' namedExample = Inr ctx
     \<and> parse ctx ''chr1:100-200'' = Inr \<lparr>start = 100, endp = 200\<rparr>
     \<and> parse ctx ''chr1'' = Inr \<lparr>start = 0, endp = 1000\<rparr>
     \<and> parse ctx ''NoSuchFeature'' = Inl RangeError"
proof -
  from namedExample_new obtain ctx where c: "NavigationContext_new ''ctx'' namedExample = Inr ctx" ..
  have d: "list_all isWordOrColon ''chr1''" "list_all isDigit ''100''" "list_all isDigit ''200''"
    by (simp_all add: isWordOrColon_def isWord_def isDigit_def)
  have v: "parseInt ''100'' = 100" "parseInt ''200'' = 200" by (simp_all add: parseInt_def)
  from C6_parse[OF c, of "''chr1''" "''100''" "''200''"] d namedExample_lookup(2)[OF c]
  have "\<exists>cs. convertGenomeIntervalToBases ctx \<lparr>start = 100, endp = 200, chr = ''chr1''\<rparr> = Inr cs
         \<and> parse ctx (locusText ''chr1'' ''100'' ''200'') = (case cs of [] \<Rightarrow> Inl RangeError | x # _ \<Rightarrow> Inr x)"
    by (simp add: v)
  then have 1: "parse ctx ''chr1:100-200'' = Inr \<lparr>start = 100, endp = 200\<rparr>"
    by (auto simp: namedExample_lookup(1)[OF c] locusText_def)
  have n: "\<not> containsLocus ''chr1''" "\<not> containsLocus ''NoSuchFeature''"
    using regex_examples(2,3) unfolding regex_search_iff by blast+
  have f0: "find_first (\<lambda>f. name f = ''chr1'') namedExample = Some (namedExample ! 0)"
    by (simp add: namedExample_def)
  have s0: "sortedFeatureStarts ctx ! 0 = 0" "Feature_getLength (namedExample ! 0) = 1000"
    "(0::nat) < length namedExample"
    using NavigationContext_new_Inr(3)[OF c]
    by (simp_all add: namedExample_def Feature_getLength_def getLength_def)
  from C6_parse[OF c, of _ _ _ "''chr1''"] n(1) f0 s0(3)
  have "parse ctx ''chr1'' = Inr \<lparr>start = sortedFeatureStarts ctx ! 0,
          endp = sortedFeatureStarts ctx ! 0 + Feature_getLength (namedExample ! 0)\<rparr>" by blast
  then have 2: "parse ctx ''chr1'' = Inr \<lparr>start = 0, endp = 1000\<rparr>" by (simp add: s0)
  have fn: "find_first (\<lambda>f. name f = ''NoSuchFeature'') namedExample = None"
    by (simp add: namedExample_def)
  from C6_parse[OF c, of _ _ _ "''NoSuchFeature''"] n(2) fn
  have 3: "parse ctx ''NoSuchFeature'' = Inl RangeError" by blast
  from c 1 2 3 show ?thesis by blast
qed

end
